theory Spec2Isabelle
  imports Main "HOL-Library.AList"
begin

section \<open>Execution-graph replay: the data model\<close>

text \<open>
  A shallow embedding of \<^verbatim>\<open>train/compute/python/tools/eg_replay.py\<close>
  (class \<^verbatim>\<open>ExgrReplayManager\<close>). The attributes of the manager object are the fields
  of the record \<open>manager\<close>; every method takes the manager and returns the updated one,
  or an error where the Python raises or exits.

  The helpers imported from \<^verbatim>\<open>eg_replay_utils\<close> and the operator implementations are
  not part of the file. What \<^verbatim>\<open>get_input_tensors(node)\<close> and
  \<^verbatim>\<open>get_output_tensors(node)\<close> return is a field of the node; the other helpers are the
  fields of the record \<open>env\<close>, a parameter of every function that calls them. They are
  taken to return without raising.
\<close>

datatype error =
    KeyError
  | IndexError
  | TypeError
  | AttributeError
  | ZeroDivisionError
  | AssertionError
  | RuntimeError
  | SystemExit

text \<open>A component of a tensor identity tuple: a number, or the device tag.\<close>

datatype elem = EInt int | EStr string

type_synonym t_id = "elem list"
type_synonym shape = "int list"

text \<open>The triples \<^verbatim>\<open>(data_type, t_id, shape)\<close> of \<^verbatim>\<open>get_input_tensors\<close>.\<close>

type_synonym tensor_arg = "string \<times> t_id \<times> shape"

text \<open>An element of \<^verbatim>\<open>node.inputs\<close>.\<close>

datatype item =
    ITensor t_id
  | ITensorList "t_id list"
  | IStr string
  | IInt int
  | IBool bool

datatype node = Node
  (node_id: int)
  (name: string)
  (children: "node list")
  (get_input_tensors: "tensor_arg list")
  (get_output_tensors: "tensor_arg list")
  (inputs: "item list")
  (input_types: "string list")
  (input_shapes: "shape list")
  (output_types: "string list")

text \<open>
  Python values that reach the registries and the operator callables. \<open>'t\<close> is the
  content of a tensor, which the replay engine never inspects.
\<close>

datatype 't pyval =
    PNone
  | PTensor 't
  | PList "'t pyval list"
  | PTuple "'t pyval list"
  | PStr string
  | PInt int
  | PBool bool
  | PFloatInf bool

text \<open>An operator callable: it takes the positional arguments and returns or raises.\<close>

type_synonym 't callable = "'t pyval list \<Rightarrow> error + 't pyval"

text \<open>
  Dictionaries that are only indexed are maps. The two registries are iterated by
  \<^verbatim>\<open>reset_registry\<close>, so they are association lists in insertion order, written with
  \<open>AList.update\<close> (a present key keeps its place, a new one goes to the end, as in a
  Python dict). \<^verbatim>\<open>tensor_shapes\<close> is a \<^verbatim>\<open>defaultdict(set)\<close>: a total function whose
  default is the empty collection; the set of pairs is a list without duplicates,
  extended with \<open>List.insert\<close>.
\<close>

record 't manager =
  tensor_registry_permanent :: "(nat \<times> 't pyval) list"
  dependency_permanent :: "t_id \<rightharpoonup> nat"
  tensor_registry :: "(nat \<times> 't pyval) list"
  sorted_nodes :: "node list"
  funcs :: "int \<rightharpoonup> ('t callable option \<times> nat)"
  unchangeable_intermediate_tensors :: "nat set"
  original_unique_tensors :: "t_id set"
  replay_unique_tensor_num :: nat
  tensors_mapping :: "(int \<times> t_id \<times> bool) \<rightharpoonup> nat"
  replay_tensors_shapes :: "nat \<rightharpoonup> shape"
  tensor_shapes :: "t_id \<Rightarrow> (nat \<times> shape) list"
  instantiate :: "nat set"
  cpu_tensor :: "nat set"
  skip_node_names :: "string list"
  cuda :: string
  fbgemm_backward_ops :: "('t callable \<times> int) list"
  top_tensors :: "node \<rightharpoonup> t_id set"
  actual_skip_nodes :: "string list"
  actual_skip_nodes_cnt :: nat
  tensor_with_device :: bool
  tensor_device :: "nat \<rightharpoonup> elem"
  numWarmupIters :: nat
  numIters :: nat
  generator :: bool

text \<open>
  The helpers of \<^verbatim>\<open>eg_replay_utils\<close>, the table \<^verbatim>\<open>TORCH_DTYPES_RNG\<close> and the
  operations of the tensor library the engine calls on a value. \<open>build_fbgemm_func\<close>
  returns the forward and the backward callable of the operator it builds;
  \<open>TORCH_DTYPES_RNG\<close> maps a type name to the tensor \<^verbatim>\<open>rng(shape).to(dtype)\<close> of a
  shape; \<open>setitem v i a b\<close> is the store \<^verbatim>\<open>v[i] = i * (a / b)\<close>.
\<close>

record 't env =
  is_qualified :: "node \<Rightarrow> bool"
  skip_op :: "node \<Rightarrow> bool"
  is_fbgemm_forward :: "node \<Rightarrow> bool"
  is_fbgemm_backward :: "node \<Rightarrow> bool"
  is_fbgemm_forward_unweighted :: "node \<Rightarrow> bool"
  fbgemm_input_args_indices :: "node \<Rightarrow> nat list"
  build_fbgemm_func :: "node \<Rightarrow> string \<Rightarrow> ('t callable \<times> 't callable) \<times> nat"
  build_torchscript_func :: "node \<Rightarrow> 't callable option \<times> nat"
  generate_fbgemm_tensors :: "node \<Rightarrow> string \<Rightarrow> 't pyval list"
  TORCH_DTYPES_RNG :: "string \<rightharpoonup> (shape \<Rightarrow> 't)"
  is_tensor :: "node \<Rightarrow> nat \<Rightarrow> bool"
  is_tensor_list :: "node \<Rightarrow> nat \<Rightarrow> bool"
  to_cuda :: "string \<Rightarrow> 't \<Rightarrow> 't"
  to_float64 :: "'t \<Rightarrow> 't"
  setitem :: "'t pyval \<Rightarrow> nat \<Rightarrow> int \<Rightarrow> int \<Rightarrow> error + 't pyval"
  tensor_bool :: "'t \<Rightarrow> error + bool"
  tensor_iter :: "'t \<Rightarrow> error + 't list"

text \<open>Decimal rendering of an integer, for the device name \<^verbatim>\<open>f"cuda:{self.cuda_id}"\<close>.\<close>

function str_nat :: "nat \<Rightarrow> string" where
  "str_nat n =
     (if n < 10 then [char_of (48 + n)]
      else str_nat (n div 10) @ [char_of (48 + n mod 10)])"
  by pat_completeness auto
termination
  by (relation "measure id") auto

definition str_int :: "int \<Rightarrow> string" where
  "str_int i = (if i < 0 then CHR ''-'' # str_nat (nat (- i)) else str_nat (nat i))"

text \<open>The state \<^verbatim>\<open>__init__\<close> leaves, for the fields the replay engine uses.\<close>

definition init_manager :: "nat \<Rightarrow> nat \<Rightarrow> int \<Rightarrow> bool \<Rightarrow> 't manager" where
  "init_manager warmup iter cuda_id gen =
     \<lparr> tensor_registry_permanent = [],
       dependency_permanent = Map.empty,
       tensor_registry = [],
       sorted_nodes = [],
       funcs = Map.empty,
       unchangeable_intermediate_tensors = {},
       original_unique_tensors = {},
       replay_unique_tensor_num = 0,
       tensors_mapping = Map.empty,
       replay_tensors_shapes = Map.empty,
       tensor_shapes = (\<lambda>_. []),
       instantiate = {},
       cpu_tensor = {},
       skip_node_names =
         [''DataLoader'', ''aten::set_'', ''fb::'', ''c10d::allreduce_'', ''pyspeech::'',
          ''All2All_Pooled_Wait'', ''adagrad''],
       cuda = (if cuda_id = - 1 then ''cuda'' else ''cuda:'' @ str_int cuda_id),
       fbgemm_backward_ops = [],
       top_tensors = Map.empty,
       actual_skip_nodes = [],
       actual_skip_nodes_cnt = 0,
       tensor_with_device = True,
       tensor_device = Map.empty,
       numWarmupIters = warmup,
       numIters = iter,
       generator = gen \<rparr>"

section \<open>The identity resolver and the lifetime analyzer: \<^verbatim>\<open>analyze_tensors\<close>\<close>

text \<open>
  The body both branches of \<^verbatim>\<open>add_unique_tensor\<close> share: count one more replay tensor,
  map the occurrence to it, and record its shape and (with devices) its device.
\<close>

definition mint ::
  "int \<Rightarrow> t_id \<Rightarrow> shape \<Rightarrow> bool \<Rightarrow> elem \<Rightarrow> 't manager \<Rightarrow> 't manager" where
  "mint nid k sh inp device s =
     (let n = replay_unique_tensor_num s + 1 in
      s\<lparr> replay_unique_tensor_num := n,
         tensors_mapping := (tensors_mapping s)((nid, k, inp) \<mapsto> n),
         replay_tensors_shapes := (replay_tensors_shapes s)(n \<mapsto> sh),
         tensor_shapes := (tensor_shapes s)(k := List.insert (n, sh) (tensor_shapes s k)),
         tensor_device :=
           (if tensor_with_device s then (tensor_device s)(n \<mapsto> device)
            else tensor_device s) \<rparr>)"

definition add_unique_tensor ::
  "int \<Rightarrow> t_id \<Rightarrow> shape \<Rightarrow> bool \<Rightarrow> elem \<Rightarrow> 't manager \<Rightarrow> 't manager" where
  "add_unique_tensor nid k sh inp device s =
     (if k \<notin> original_unique_tensors s then
        mint nid k sh inp device
          (s\<lparr> original_unique_tensors := insert k (original_unique_tensors s) \<rparr>)
      else
        (case find (\<lambda>(relay_t_id, pre_shape). sh = pre_shape) (tensor_shapes s k) of
           Some (relay_t_id, pre_shape) \<Rightarrow>
             s\<lparr> tensors_mapping := (tensors_mapping s)((nid, k, inp) \<mapsto> relay_t_id) \<rparr>
         | None \<Rightarrow> mint nid k sh inp device s))"

text \<open>
  One of the four inner loops of the first pass: the tensors of one role of one node.
  With devices, \<^verbatim>\<open>list(t_id)[5]\<close> raises on a tuple of five components or fewer.
\<close>

fun resolve_args ::
  "bool \<Rightarrow> int \<Rightarrow> tensor_arg list \<Rightarrow> 't manager \<Rightarrow> error + 't manager" where
  "resolve_args inp nid [] s = Inr s"
| "resolve_args inp nid ((ty, k, sh) # rest) s =
     (if tensor_with_device s then
        (if length k \<le> 5 then Inl IndexError
         else
           let device = k ! 5; k5 = take 5 k in
           resolve_args inp nid rest
             (if dependency_permanent s k5 \<noteq> None
              then add_unique_tensor nid k5 sh inp device s else s))
      else
        resolve_args inp nid rest
          (if dependency_permanent s k \<noteq> None
           then add_unique_tensor nid k sh inp (EInt (- 1)) s else s))"

fun resolve_nodes :: "node list \<Rightarrow> 't manager \<Rightarrow> error + 't manager" where
  "resolve_nodes [] s = Inr s"
| "resolve_nodes (n # ns) s =
     (case resolve_args True (node_id n) (get_input_tensors n) s of
        Inl e \<Rightarrow> Inl e
      | Inr s1 \<Rightarrow>
          (case resolve_args False (node_id n) (get_output_tensors n) s1 of
             Inl e \<Rightarrow> Inl e
           | Inr s2 \<Rightarrow> resolve_nodes ns s2))"

text \<open>The identity key the second pass and the later stages look an occurrence up by.\<close>

definition key_of :: "'t manager \<Rightarrow> t_id \<Rightarrow> t_id" where
  "key_of s k = (if tensor_with_device s then take 5 k else k)"

text \<open>
  The second pass simulates the execution; \<open>out\<close> is the local \<^verbatim>\<open>output_set\<close>. The
  lookup in \<^verbatim>\<open>tensors_mapping\<close> is made only for a tracked key, and raises on a
  missing entry.
\<close>

fun mark_inputs ::
  "int \<Rightarrow> tensor_arg list \<Rightarrow> nat set \<Rightarrow> 't manager \<Rightarrow> error + 't manager" where
  "mark_inputs nid [] out s = Inr s"
| "mark_inputs nid ((ty, k, sh) # rest) out s =
     (if dependency_permanent s (key_of s k) \<noteq> None then
        (case tensors_mapping s (nid, key_of s k, True) of
           None \<Rightarrow> Inl KeyError
         | Some r \<Rightarrow>
             mark_inputs nid rest out
               (if r \<notin> out then s\<lparr> instantiate := insert r (instantiate s) \<rparr> else s))
      else mark_inputs nid rest out s)"

fun mark_outputs ::
  "'t manager \<Rightarrow> int \<Rightarrow> tensor_arg list \<Rightarrow> nat set \<Rightarrow> error + nat set" where
  "mark_outputs s nid [] out = Inr out"
| "mark_outputs s nid ((ty, k, sh) # rest) out =
     (if dependency_permanent s (key_of s k) \<noteq> None then
        (case tensors_mapping s (nid, key_of s k, False) of
           None \<Rightarrow> Inl KeyError
         | Some r \<Rightarrow> mark_outputs s nid rest (insert r out))
      else mark_outputs s nid rest out)"

fun simulate ::
  "node list \<Rightarrow> nat set \<Rightarrow> 't manager \<Rightarrow> error + ('t manager \<times> nat set)" where
  "simulate [] out s = Inr (s, out)"
| "simulate (n # ns) out s =
     (case mark_inputs (node_id n) (get_input_tensors n) out s of
        Inl e \<Rightarrow> Inl e
      | Inr s1 \<Rightarrow>
          (case mark_outputs s1 (node_id n) (get_output_tensors n) out of
             Inl e \<Rightarrow> Inl e
           | Inr out1 \<Rightarrow> simulate ns out1 s1))"

text \<open>
  \<^verbatim>\<open>analyze_tensors\<close>: both passes over \<^verbatim>\<open>sorted_nodes\<close>. The method returns nothing;
  the model also returns the final \<^verbatim>\<open>output_set\<close>, the set of replay tensors produced
  by execution, so that it can be spoken about.
\<close>

definition analyze_tensors :: "'t manager \<Rightarrow> error + ('t manager \<times> nat set)" where
  "analyze_tensors s =
     (case resolve_nodes (sorted_nodes s) s of
        Inl e \<Rightarrow> Inl e
      | Inr s1 \<Rightarrow> simulate (sorted_nodes s1) {} s1)"

section \<open>The graph flattener: \<^verbatim>\<open>extract_subgraph\<close> and \<^verbatim>\<open>build_func\<close>\<close>

text \<open>\<^verbatim>\<open>s.startswith(p)\<close> and the substring test \<^verbatim>\<open>x in s\<close>.\<close>

fun startswith :: "string \<Rightarrow> string \<Rightarrow> bool" where
  "startswith s [] = True"
| "startswith [] (p # ps) = False"
| "startswith (c # cs) (p # ps) = (c = p \<and> startswith cs ps)"

fun contains :: "string \<Rightarrow> string \<Rightarrow> bool" where
  "contains x [] = (x = [])"
| "contains x (c # cs) = (startswith (c # cs) x \<or> contains x cs)"

definition record_skip :: "node \<Rightarrow> 't manager \<Rightarrow> 't manager" where
  "record_skip n s =
     s\<lparr> actual_skip_nodes := actual_skip_nodes s @ [name n],
        actual_skip_nodes_cnt := actual_skip_nodes_cnt s + 1 \<rparr>"

text \<open>
  \<^verbatim>\<open>build_func\<close> returns the pair \<^verbatim>\<open>(func, output_count)\<close>; a node whose operator
  does not resolve gets \<^verbatim>\<open>func = None\<close> and one more entry of the skip tally. The
  \<^verbatim>\<open>assert\<close> is the only statement of the method that raises.
\<close>

definition build_func ::
  "'t env \<Rightarrow> node \<Rightarrow> 't manager \<Rightarrow> error + (('t callable option \<times> nat) \<times> 't manager)" where
  "build_func env n s =
     (if is_fbgemm_forward env n then
        (case build_fbgemm_func env n (cuda s) of
           ((forward, backward), output_count) \<Rightarrow>
             Inr ((Some forward, output_count),
                  s\<lparr> fbgemm_backward_ops := fbgemm_backward_ops s @ [(backward, node_id n)] \<rparr>))
      else if is_fbgemm_backward env n then
        (if fbgemm_backward_ops s = [] then Inl AssertionError
         else
           (case last (fbgemm_backward_ops s) of
              (backward_op, forward_id) \<Rightarrow>
                Inr ((Some backward_op, length (output_types n)),
                     s\<lparr> fbgemm_backward_ops := butlast (fbgemm_backward_ops s) \<rparr>)))
      else
        (case build_torchscript_func env n of
           (None, output_count) \<Rightarrow> Inr ((None, output_count), record_skip n s)
         | (Some func, output_count) \<Rightarrow> Inr ((Some func, output_count), s)))"

definition count_dependency :: "'t manager \<Rightarrow> t_id \<Rightarrow> 't manager" where
  "count_dependency s k =
     s\<lparr> dependency_permanent :=
          (dependency_permanent s)
            (k \<mapsto> (case dependency_permanent s k of None \<Rightarrow> 0 | Some c \<Rightarrow> c) + 1) \<rparr>"

text \<open>What the branch of a qualified child does before it resolves the operator.\<close>

definition select_node :: "node \<Rightarrow> 't manager \<Rightarrow> 't manager" where
  "select_node child s =
     (let s1 = s\<lparr> sorted_nodes := sorted_nodes s @ [child] \<rparr>;
          s2 = s1\<lparr> top_tensors := (top_tensors s1)
                  (child \<mapsto> set (map (\<lambda>(ty, k, sh). key_of s1 k)
                     (get_input_tensors child @ get_output_tensors child))) \<rparr>
      in foldl count_dependency s2
           (map (\<lambda>(ty, k, sh). key_of s2 k) (get_input_tensors child)))"

text \<open>
  \<^verbatim>\<open>_dfs_traverse(root)\<close> is the loop over \<^verbatim>\<open>root.children\<close>: \<open>dfs_traverse\<close> takes
  the children still to visit. An exception in the body prints and calls
  \<^verbatim>\<open>exit(1)\<close>; \<^verbatim>\<open>SystemExit\<close> is not caught by the callers' \<^verbatim>\<open>except Exception\<close>.
\<close>

function dfs_traverse :: "'t env \<Rightarrow> node list \<Rightarrow> 't manager \<Rightarrow> error + 't manager" where
  "dfs_traverse env [] s = Inr s"
| "dfs_traverse env (child # rest) s =
     (if list_ex (\<lambda>x. contains x (name child)) (skip_node_names s) then
        dfs_traverse env rest (record_skip child s)
      else if is_qualified env child then
        (case build_func env child (select_node child s) of
           Inl e \<Rightarrow> Inl SystemExit
         | Inr (fc, s1) \<Rightarrow>
             dfs_traverse env rest (s1\<lparr> funcs := (funcs s1)(node_id child \<mapsto> fc) \<rparr>))
      else
        (case dfs_traverse env (children child)
                (if skip_op env child then record_skip child s else s) of
           Inl e \<Rightarrow> Inl e
         | Inr s1 \<Rightarrow> dfs_traverse env rest s1))"
  by pat_completeness auto
termination
proof (relation "measure (\<lambda>(env, ns, s). size_list size ns)", goal_cases)
  case (4 env child rest s)
  then show ?case by (cases child) simp
qed simp_all

definition extract_subgraph :: "'t env \<Rightarrow> node \<Rightarrow> 't manager \<Rightarrow> error + 't manager" where
  "extract_subgraph env root s =
     (case dfs_traverse env (children root) s of
        Inl e \<Rightarrow> Inl e
      | Inr s1 \<Rightarrow> Inr (s1\<lparr> sorted_nodes := sort_key node_id (sorted_nodes s1) \<rparr>))"

section \<open>The allocator and the registries\<close>

text \<open>
  \<^verbatim>\<open>detect_tensor_device\<close>: \<^verbatim>\<open>_traverse\<close> returns from the current level at the first
  child that has a tensor, having looked at that tensor only; a child without tensors
  is descended into and the loop goes on.
\<close>

function detect_traverse :: "node list \<Rightarrow> bool \<Rightarrow> bool" where
  "detect_traverse [] twd = twd"
| "detect_traverse (child # rest) twd =
     (case get_input_tensors child of
        (ty, k, sh) # others \<Rightarrow> (if length k = 5 then False else twd)
      | [] \<Rightarrow>
          (case get_output_tensors child of
             (ty, k, sh) # others \<Rightarrow> (if length k = 5 then False else twd)
           | [] \<Rightarrow> detect_traverse rest (detect_traverse (children child) twd)))"
  by pat_completeness auto
termination
proof (relation "measure (\<lambda>(ns, twd). size_list size ns)", goal_cases)
  case (2 child rest twd)
  then show ?case by (cases child) simp
qed simp_all

definition detect_tensor_device :: "node \<Rightarrow> 't manager \<Rightarrow> 't manager" where
  "detect_tensor_device root s =
     s\<lparr> tensor_with_device := detect_traverse (children root) (tensor_with_device s) \<rparr>"

text \<open>\<^verbatim>\<open>data_type.lstrip("Tensor(").rstrip(")")\<close>: both strip sets of characters.\<close>

definition strip_tensor :: "string \<Rightarrow> string" where
  "strip_tensor ty =
     rev (dropWhile (\<lambda>c. c = CHR '')'')
       (rev (dropWhile (\<lambda>c. c \<in> set ''Tensor('') ty)))"


text \<open>
  The loop of \<^verbatim>\<open>allocate_tensors\<close> over \<^verbatim>\<open>enumerate(get_input_tensors(node))\<close>.
  The lookup of \<^verbatim>\<open>replay_t_id\<close> comes before the test and raises on a missing entry;
  \<^verbatim>\<open>input_args[idx]\<close> raises an \<^verbatim>\<open>IndexError\<close> that \<^verbatim>\<open>except KeyError\<close> lets through;
  a type name missing from \<^verbatim>\<open>TORCH_DTYPES_RNG\<close> is the \<^verbatim>\<open>KeyError\<close> that stores
  \<^verbatim>\<open>None\<close>, before any flag is set.
\<close>

fun allocate_inputs ::
  "'t env \<Rightarrow> node \<Rightarrow> 't pyval list \<Rightarrow> nat \<Rightarrow> tensor_arg list \<Rightarrow> 't manager \<Rightarrow>
   error + 't manager" where
  "allocate_inputs env n input_args idx [] s = Inr s"
| "allocate_inputs env n input_args idx ((data_type, k, sh) # rest) s =
     (case tensors_mapping s (node_id n, key_of s k, True) of
        None \<Rightarrow> Inl KeyError
      | Some replay_t_id \<Rightarrow>
          (if dependency_permanent s (key_of s k) \<noteq> None
              \<and> map_of (tensor_registry_permanent s) replay_t_id = None
              \<and> (name n = ''aten::embedding_bag''
                   \<or> contains ''fbgemm::split_embedding_codegen_lookup'' (name n)
                   \<or> replay_t_id \<in> instantiate s)
           then
             (if is_fbgemm_forward env n then
                (if idx < length input_args then
                   allocate_inputs env n input_args (Suc idx) rest
                     (s\<lparr> tensor_registry_permanent :=
                          AList.update replay_t_id (input_args ! idx)
                            (tensor_registry_permanent s),
                        unchangeable_intermediate_tensors :=
                          (if contains ''fbgemm::split_embedding_codegen_lookup'' (name n)
                           then insert replay_t_id (unchangeable_intermediate_tensors s)
                           else unchangeable_intermediate_tensors s) \<rparr>)
                 else Inl IndexError)
              else
                (case TORCH_DTYPES_RNG env (strip_tensor data_type) of
                   None \<Rightarrow>
                     allocate_inputs env n input_args (Suc idx) rest
                       (s\<lparr> tensor_registry_permanent :=
                            AList.update replay_t_id PNone (tensor_registry_permanent s) \<rparr>)
                 | Some rng \<Rightarrow>
                     allocate_inputs env n input_args (Suc idx) rest
                       (s\<lparr> tensor_registry_permanent :=
                            AList.update replay_t_id (PTensor (rng sh))
                              (tensor_registry_permanent s),
                          unchangeable_intermediate_tensors :=
                            (if name n = ''aten::embedding_bag''
                             then insert replay_t_id (unchangeable_intermediate_tensors s)
                             else unchangeable_intermediate_tensors s),
                          cpu_tensor :=
                            (if name n = ''aten::pin_memory'' \<and> idx = 0
                             then insert replay_t_id (cpu_tensor s)
                             else cpu_tensor s) \<rparr>)))
           else allocate_inputs env n input_args (Suc idx) rest s))"

text \<open>\<^verbatim>\<open>xs[i]\<close> for an index that is not negative.\<close>

definition nth_opt :: "'a list \<Rightarrow> nat \<Rightarrow> 'a option" where
  "nth_opt xs i = (if i < length xs then Some (xs ! i) else None)"

text \<open>
  The workaround for the offsets of \<^verbatim>\<open>aten::embedding_bag\<close>: the loop over
  \<^verbatim>\<open>range(offsets_tensor_shape)\<close>, each round storing \<^verbatim>\<open>i * nnz\<close> into the seeded
  tensor of the third input.
\<close>

fun set_offsets ::
  "'t env \<Rightarrow> node \<Rightarrow> int \<Rightarrow> int \<Rightarrow> nat list \<Rightarrow> 't manager \<Rightarrow> error + 't manager" where
  "set_offsets env n indices offsets [] s = Inr s"
| "set_offsets env n indices offsets (i # rest) s =
     (case nth_opt (inputs n) 2 of
        None \<Rightarrow> Inl IndexError
      | Some (ITensor k) \<Rightarrow>
          (case tensors_mapping s (node_id n, key_of s k, True) of
             None \<Rightarrow> Inl KeyError
           | Some r \<Rightarrow>
               (case map_of (tensor_registry_permanent s) r of
                  None \<Rightarrow> Inl KeyError
                | Some v \<Rightarrow>
                    (case setitem env v i indices offsets of
                       Inl e \<Rightarrow> Inl e
                     | Inr v' \<Rightarrow>
                         set_offsets env n indices offsets rest
                           (s\<lparr> tensor_registry_permanent :=
                                AList.update r v' (tensor_registry_permanent s) \<rparr>))))
      | Some other \<Rightarrow> Inl TypeError)"

definition embedding_bag_offsets :: "'t env \<Rightarrow> node \<Rightarrow> 't manager \<Rightarrow> error + 't manager" where
  "embedding_bag_offsets env n s =
     (if name n = ''aten::embedding_bag'' then
        (case (nth_opt (input_shapes n) 1, nth_opt (input_shapes n) 2) of
           (Some (indices_tensor_shape # more1), Some (offsets_tensor_shape # more2)) \<Rightarrow>
             (if offsets_tensor_shape = 0 then Inl ZeroDivisionError
              else set_offsets env n indices_tensor_shape offsets_tensor_shape
                     [0 ..< nat offsets_tensor_shape] s)
         | other \<Rightarrow> Inl IndexError)
      else Inr s)"

fun allocate_nodes :: "'t env \<Rightarrow> node list \<Rightarrow> 't manager \<Rightarrow> error + 't manager" where
  "allocate_nodes env [] s = Inr s"
| "allocate_nodes env (n # ns) s =
     (let input_args =
            (if is_fbgemm_forward env n then generate_fbgemm_tensors env n (cuda s) else [])
      in case allocate_inputs env n input_args 0 (get_input_tensors n) s of
           Inl e \<Rightarrow> Inl e
         | Inr s1 \<Rightarrow>
             (case embedding_bag_offsets env n s1 of
                Inl e \<Rightarrow> Inl e
              | Inr s2 \<Rightarrow> allocate_nodes env ns s2))"

definition allocate_tensors :: "'t env \<Rightarrow> 't manager \<Rightarrow> error + 't manager" where
  "allocate_tensors env s = allocate_nodes env (sorted_nodes s) s"

text \<open>
  \<^verbatim>\<open>reset_registry\<close>: the value the comprehension computes for one entry, and the
  comprehension over \<^verbatim>\<open>tensor_registry_permanent.items()\<close>. \<^verbatim>\<open>v.cuda(self.device)\<close> is
  a method of tensors. Reclaiming memory changes nothing the model holds.
\<close>

definition to_device :: "'t env \<Rightarrow> 't manager \<Rightarrow> 't pyval \<Rightarrow> error + 't pyval" where
  "to_device env s v =
     (case v of
        PTensor t \<Rightarrow> Inr (PTensor (to_cuda env (cuda s) t))
      | other \<Rightarrow> Inl AttributeError)"

definition place :: "'t env \<Rightarrow> 't manager \<Rightarrow> nat \<Rightarrow> 't pyval \<Rightarrow> error + 't pyval" where
  "place env s k v =
     (if v = PNone then Inr PNone
      else if tensor_with_device s then
        (case tensor_device s k of
           None \<Rightarrow> Inl KeyError
         | Some d \<Rightarrow> if d = EStr ''cpu'' then Inr v else to_device env s v)
      else if k \<in> cpu_tensor s then Inr v else to_device env s v)"

fun place_items ::
  "'t env \<Rightarrow> 't manager \<Rightarrow> (nat \<times> 't pyval) list \<Rightarrow> error + (nat \<times> 't pyval) list" where
  "place_items env s [] = Inr []"
| "place_items env s ((k, v) # rest) =
     (case place env s k v of
        Inl e \<Rightarrow> Inl e
      | Inr v' \<Rightarrow>
          (case place_items env s rest of
             Inl e \<Rightarrow> Inl e
           | Inr rest' \<Rightarrow> Inr ((k, v') # rest')))"

definition reset_registry :: "'t env \<Rightarrow> 't manager \<Rightarrow> error + 't manager" where
  "reset_registry env s =
     (case place_items env s (tensor_registry_permanent s) of
        Inl e \<Rightarrow> Inl e
      | Inr reg \<Rightarrow> Inr (s\<lparr> tensor_registry := reg \<rparr>))"

text \<open>
  \<^verbatim>\<open>preprocess_graph\<close>, given the root of the parsed trace. The code generator
  (\<^verbatim>\<open>generate_code\<close>) is out of scope: it ends the process with \<^verbatim>\<open>exit(1)\<close>.
\<close>

definition preprocess_graph :: "'t env \<Rightarrow> node \<Rightarrow> 't manager \<Rightarrow> error + 't manager" where
  "preprocess_graph env root s =
     (case extract_subgraph env root (detect_tensor_device root s) of
        Inl e \<Rightarrow> Inl e
      | Inr s1 \<Rightarrow>
          (case analyze_tensors s1 of
             Inl e \<Rightarrow> Inl e
           | Inr (s2, out) \<Rightarrow>
               (if generator s2 then Inl SystemExit
                else
                  (case allocate_tensors env s2 of
                     Inl e \<Rightarrow> Inl e
                   | Inr s3 \<Rightarrow> reset_registry env s3))))"

section \<open>The execution scheduler: \<^verbatim>\<open>get_inputs\<close>, \<^verbatim>\<open>run_op\<close> and \<^verbatim>\<open>benchTime\<close>\<close>

text \<open>
  \<^verbatim>\<open>self.tensor_registry[self.tensors_mapping[(node.id, key, True)]]\<close>. Inside
  \<^verbatim>\<open>get_inputs\<close> every exception is caught and the method returns \<^verbatim>\<open>None\<close>, so a
  failed lookup is \<open>None\<close> here.
\<close>

definition lookup_input :: "'t manager \<Rightarrow> node \<Rightarrow> t_id \<Rightarrow> 't pyval option" where
  "lookup_input s n k =
     (case tensors_mapping s (node_id n, key_of s k, True) of
        None \<Rightarrow> None
      | Some r \<Rightarrow> map_of (tensor_registry s) r)"

fun lookup_inputs :: "'t manager \<Rightarrow> node \<Rightarrow> t_id list \<Rightarrow> 't pyval list option" where
  "lookup_inputs s n [] = Some []"
| "lookup_inputs s n (k # ks) =
     (case lookup_input s n k of
        None \<Rightarrow> None
      | Some v \<Rightarrow>
          (case lookup_inputs s n ks of None \<Rightarrow> None | Some vs \<Rightarrow> Some (v # vs)))"

definition elem_val :: "elem \<Rightarrow> 't pyval" where
  "elem_val e = (case e of EInt i \<Rightarrow> PInt i | EStr x \<Rightarrow> PStr x)"

definition item_val :: "item \<Rightarrow> 't pyval" where
  "item_val it =
     (case it of
        ITensor k \<Rightarrow> PList (map elem_val k)
      | ITensorList ks \<Rightarrow> PList (map (\<lambda>k. PList (map elem_val k)) ks)
      | IStr x \<Rightarrow> PStr x
      | IInt i \<Rightarrow> PInt i
      | IBool b \<Rightarrow> PBool b)"

text \<open>One round of the loop over \<^verbatim>\<open>enumerate(node.inputs)\<close>: the value appended.\<close>

definition get_input :: "'t env \<Rightarrow> 't manager \<Rightarrow> node \<Rightarrow> nat \<Rightarrow> item \<Rightarrow> 't pyval option" where
  "get_input env s n idx it =
     (if is_tensor env n idx then
        (case it of ITensor k \<Rightarrow> lookup_input s n k | other \<Rightarrow> None)
      else if is_tensor_list env n idx then
        (case it of
           ITensorList ks \<Rightarrow> map_option PList (lookup_inputs s n ks)
         | ITensor [] \<Rightarrow> Some (PList [])
         | IStr [] \<Rightarrow> Some (PList [])
         | other \<Rightarrow> None)
      else if it = IStr ''<None>'' \<or> it = IStr ''<Generator>'' then Some PNone
      else if it = IStr ''inf'' \<or> it = IStr ''-inf'' then Some (PFloatInf (it = IStr ''inf''))
      else
        (case nth_opt (input_types n) idx of
           None \<Rightarrow> None
         | Some ty \<Rightarrow>
             (if ty = ''Device'' then
                (case it of
                   IStr x \<Rightarrow> Some (if contains ''cuda'' x then PStr (cuda s) else PStr x)
                 | ITensor k \<Rightarrow>
                     Some (if EStr ''cuda'' \<in> set k then PStr (cuda s) else item_val it)
                 | ITensorList ks \<Rightarrow> Some (item_val it)
                 | other \<Rightarrow> None)
              else Some (item_val it))))"

fun get_inputs_from ::
  "'t env \<Rightarrow> 't manager \<Rightarrow> node \<Rightarrow> nat \<Rightarrow> item list \<Rightarrow> 't pyval list option" where
  "get_inputs_from env s n idx [] = Some []"
| "get_inputs_from env s n idx (it # rest) =
     (case get_input env s n idx it of
        None \<Rightarrow> None
      | Some v \<Rightarrow>
          (case get_inputs_from env s n (Suc idx) rest of
             None \<Rightarrow> None
           | Some vs \<Rightarrow> Some (v # vs)))"

fun fbgemm_inputs :: "'t manager \<Rightarrow> node \<Rightarrow> nat list \<Rightarrow> 't pyval list option" where
  "fbgemm_inputs s n [] = Some []"
| "fbgemm_inputs s n (idx # rest) =
     (case nth_opt (inputs n) idx of
        Some (ITensor k) \<Rightarrow>
          (case lookup_input s n k of
             None \<Rightarrow> None
           | Some v \<Rightarrow>
               (case fbgemm_inputs s n rest of None \<Rightarrow> None | Some vs \<Rightarrow> Some (v # vs)))
      | other \<Rightarrow> None)"

definition get_inputs :: "'t env \<Rightarrow> 't manager \<Rightarrow> node \<Rightarrow> 't pyval list option" where
  "get_inputs env s n =
     (if is_fbgemm_forward env n then
        (case fbgemm_inputs s n (fbgemm_input_args_indices env n) of
           None \<Rightarrow> None
         | Some vs \<Rightarrow> Some (if is_fbgemm_forward_unweighted env n then vs @ [PNone] else vs))
      else get_inputs_from env s n 0 (inputs n))"

text \<open>
  The workarounds \<^verbatim>\<open>run_op\<close> applies to the arguments, outside its \<^verbatim>\<open>try\<close>. On the
  \<^verbatim>\<open>None\<close> a failed \<^verbatim>\<open>get_inputs\<close> returns, an indexing raises \<^verbatim>\<open>TypeError\<close>.
\<close>

definition cast_fourth :: "'t env \<Rightarrow> 't pyval list \<Rightarrow> error + 't pyval list" where
  "cast_fourth env args =
     (case nth_opt args 3 of
        None \<Rightarrow> Inl IndexError
      | Some (PTensor t) \<Rightarrow> Inr (args[3 := PTensor (to_float64 env t)])
      | Some other \<Rightarrow> Inl AttributeError)"

definition workarounds ::
  "'t env \<Rightarrow> node \<Rightarrow> 't pyval list option \<Rightarrow> error + 't pyval list option" where
  "workarounds env n args =
     (if name n = ''aten::convolution_backward'' then
        (case args of
           None \<Rightarrow> Inl TypeError
         | Some [] \<Rightarrow> Inl IndexError
         | Some vs \<Rightarrow> Inr (Some (butlast vs @ [PList [PBool True, PBool True, PBool True]])))
      else if name n = ''aten::index_add_'' then
        (case args of
           None \<Rightarrow> Inl TypeError
         | Some vs \<Rightarrow> map_sum id Some (cast_fourth env vs))
      else if name n = ''aten::index_copy_'' then
        (case nth_opt (input_types n) 3 of
           None \<Rightarrow> Inl IndexError
         | Some ty \<Rightarrow>
             (if ty = ''Tensor(double)'' then
                (case args of
                   None \<Rightarrow> Inl TypeError
                 | Some vs \<Rightarrow> map_sum id Some (cast_fourth env vs))
              else Inr args))
      else Inr args)"

text \<open>\<^verbatim>\<open>not tmp\<close> and \<^verbatim>\<open>for x in tmp\<close> on the value a callable returned.\<close>

definition py_not :: "'t env \<Rightarrow> 't pyval \<Rightarrow> error + bool" where
  "py_not env v =
     (case v of
        PNone \<Rightarrow> Inr True
      | PTensor t \<Rightarrow> map_sum id Not (tensor_bool env t)
      | PList xs \<Rightarrow> Inr (xs = [])
      | PTuple xs \<Rightarrow> Inr (xs = [])
      | PStr x \<Rightarrow> Inr (x = [])
      | PInt i \<Rightarrow> Inr (i = 0)
      | PBool b \<Rightarrow> Inr (\<not> b)
      | PFloatInf b \<Rightarrow> Inr False)"

definition py_iter :: "'t env \<Rightarrow> 't pyval \<Rightarrow> error + 't pyval list" where
  "py_iter env v =
     (case v of
        PTensor t \<Rightarrow> map_sum id (map PTensor) (tensor_iter env t)
      | PList xs \<Rightarrow> Inr xs
      | PTuple xs \<Rightarrow> Inr xs
      | PStr x \<Rightarrow> Inr (map (\<lambda>c. PStr [c]) x)
      | other \<Rightarrow> Inl TypeError)"

text \<open>The flattening of tensor lists; \<^verbatim>\<open>x[0]\<close> raises on an empty list.\<close>

fun flatten_outputs :: "'t pyval list \<Rightarrow> error + 't pyval list" where
  "flatten_outputs [] = Inr []"
| "flatten_outputs (x # xs) =
     (case x of
        PList [] \<Rightarrow> Inl IndexError
      | PList (PTensor t # ys) \<Rightarrow> map_sum id (\<lambda>r. PTensor t # ys @ r) (flatten_outputs xs)
      | PTensor t \<Rightarrow> map_sum id (\<lambda>r. PTensor t # r) (flatten_outputs xs)
      | other \<Rightarrow> flatten_outputs xs)"

text \<open>
  The \<^verbatim>\<open>try\<close> block of \<^verbatim>\<open>run_op\<close>: \<open>Inr (Some outputs)\<close> when it falls through to the
  binding loop, \<open>Inr None\<close> on the early \<^verbatim>\<open>return\<close>, and \<^verbatim>\<open>exit(1)\<close> on any exception.
  Calling with \<^verbatim>\<open>*None\<close> raises.
\<close>

definition invoke ::
  "'t env \<Rightarrow> 't callable \<Rightarrow> nat \<Rightarrow> 't pyval list option \<Rightarrow> error + 't pyval list option" where
  "invoke env func output_count args =
     (case args of
        None \<Rightarrow> Inl SystemExit
      | Some vs \<Rightarrow>
          (case func vs of
             Inl e \<Rightarrow> Inl SystemExit
           | Inr res \<Rightarrow>
               (if output_count = 0 then Inr (Some [])
                else
                  (let tmp = (if output_count = 1 then PTuple [res] else res) in
                   case py_not env tmp of
                     Inl e \<Rightarrow> Inl SystemExit
                   | Inr True \<Rightarrow> Inr None
                   | Inr False \<Rightarrow>
                       (case py_iter env tmp of
                          Inl e \<Rightarrow> Inl SystemExit
                        | Inr xs \<Rightarrow>
                            (case flatten_outputs xs of
                               Inl e \<Rightarrow> Inl SystemExit
                             | Inr outputs \<Rightarrow> Inr (Some outputs)))))))"

text \<open>
  The output-binding loop over \<^verbatim>\<open>zip(get_output_tensors(node), outputs)\<close>. The lookup
  in \<^verbatim>\<open>tensors_mapping\<close> is made only for a tracked key.
\<close>

fun bind_outputs ::
  "int \<Rightarrow> (tensor_arg \<times> 't pyval) list \<Rightarrow> 't manager \<Rightarrow> error + 't manager" where
  "bind_outputs nid [] s = Inr s"
| "bind_outputs nid (((ty, k, sh), output) # rest) s =
     (if dependency_permanent s (key_of s k) \<noteq> None then
        (case tensors_mapping s (nid, key_of s k, False) of
           None \<Rightarrow> Inl KeyError
         | Some r \<Rightarrow>
             (if r \<notin> unchangeable_intermediate_tensors s then
                (if r \<notin> instantiate s then
                   bind_outputs nid rest
                     (s\<lparr> tensor_registry := AList.update r output (tensor_registry s) \<rparr>)
                 else bind_outputs nid rest s)
              else bind_outputs nid rest s))
      else bind_outputs nid rest s)"

text \<open>
  \<^verbatim>\<open>run_op\<close>. The timing of the debug mode and the memory profile are telemetry and
  are left out.
\<close>

definition run_op :: "'t env \<Rightarrow> node \<Rightarrow> nat \<Rightarrow> 't manager \<Rightarrow> error + 't manager" where
  "run_op env n iter s =
     (case funcs s (node_id n) of
        None \<Rightarrow> Inl KeyError
      | Some (None, output_count) \<Rightarrow> Inr s
      | Some (Some func, output_count) \<Rightarrow>
          (case workarounds env n (get_inputs env s n) of
             Inl e \<Rightarrow> Inl e
           | Inr args \<Rightarrow>
               (case invoke env func output_count args of
                  Inl e \<Rightarrow> Inl e
                | Inr None \<Rightarrow> Inr s
                | Inr (Some outputs) \<Rightarrow>
                    bind_outputs (node_id n) (zip (get_output_tensors n) outputs) s)))"

text \<open>The sweep \<^verbatim>\<open>for node in self.sorted_nodes: self.run_op(node, iter)\<close>.\<close>

fun run_nodes :: "'t env \<Rightarrow> node list \<Rightarrow> nat \<Rightarrow> 't manager \<Rightarrow> error + 't manager" where
  "run_nodes env [] iter s = Inr s"
| "run_nodes env (n # ns) iter s =
     (case run_op env n iter s of
        Inl e \<Rightarrow> Inl e
      | Inr s1 \<Rightarrow> run_nodes env ns iter s1)"

text \<open>
  The loop \<^verbatim>\<open>for iter in range(self.numWarmupIters + self.numIters)\<close> of
  \<^verbatim>\<open>benchTime\<close>, the same with and without the profiler. Its last statement, the
  call of \<^verbatim>\<open>reset_registry\<close>, is commented out in the source, so a round is the sweep
  alone.
\<close>

fun run_iters :: "'t env \<Rightarrow> nat list \<Rightarrow> 't manager \<Rightarrow> error + 't manager" where
  "run_iters env [] s = Inr s"
| "run_iters env (iter # iters) s =
     (case run_nodes env (sorted_nodes s) iter s of
        Inl e \<Rightarrow> Inl e
      | Inr s1 \<Rightarrow> run_iters env iters s1)"

text \<open>
  \<^verbatim>\<open>benchTime\<close>, up to the report: the two divisions of the report raise on a zero
  divisor.
\<close>

definition benchTime :: "'t env \<Rightarrow> node \<Rightarrow> 't manager \<Rightarrow> error + 't manager" where
  "benchTime env root s =
     (case preprocess_graph env root s of
        Inl e \<Rightarrow> Inl e
      | Inr s1 \<Rightarrow>
          (if generator s1 then Inr s1
           else
             (case run_iters env [0 ..< numWarmupIters s1 + numIters s1] s1 of
                Inl e \<Rightarrow> Inl e
              | Inr s2 \<Rightarrow>
                  (if numIters s2 = 0 then Inl ZeroDivisionError
                   else if length (sorted_nodes s2) + actual_skip_nodes_cnt s2 = 0
                   then Inl ZeroDivisionError
                   else Inr s2))))"

section \<open>Vocabulary of the properties\<close>

text \<open>A tensor occurrence is tracked when its key is in \<^verbatim>\<open>dependency_permanent\<close>.\<close>

definition tracked :: "'t manager \<Rightarrow> t_id \<Rightarrow> bool" where
  "tracked s k \<longleftrightarrow> dependency_permanent s (key_of s k) \<noteq> None"

text \<open>The shapes the first pass of \<^verbatim>\<open>analyze_tensors\<close> meets under a key.\<close>

definition arg_shapes :: "'t manager \<Rightarrow> tensor_arg list \<Rightarrow> t_id \<Rightarrow> shape list" where
  "arg_shapes s args k = [sh. (ty, k0, sh) \<leftarrow> args, tracked s k0 \<and> key_of s k0 = k]"

definition observed_shapes :: "'t manager \<Rightarrow> node list \<Rightarrow> t_id \<Rightarrow> shape list" where
  "observed_shapes s ns k =
     concat (map (\<lambda>n. arg_shapes s (get_input_tensors n @ get_output_tensors n) k) ns)"

text \<open>The state of the identity resolver before the first occurrence is resolved.\<close>

definition resolver_fresh :: "'t manager \<Rightarrow> bool" where
  "resolver_fresh s \<longleftrightarrow>
     original_unique_tensors s = {} \<and> replay_unique_tensor_num s = 0 \<and>
     tensor_shapes s = (\<lambda>k. [])"

text \<open>
  What every state of the identity resolver satisfies: a key not yet seen has no
  recorded shape, the shapes and the ids recorded under a key are distinct, and no
  recorded id exceeds the counter.
\<close>

definition resolver_inv :: "'t manager \<Rightarrow> bool" where
  "resolver_inv s \<longleftrightarrow>
     (\<forall>k. k \<notin> original_unique_tensors s \<longrightarrow> tensor_shapes s k = []) \<and>
     (\<forall>k. distinct (map snd (tensor_shapes s k))) \<and>
     (\<forall>k. distinct (map fst (tensor_shapes s k))) \<and>
     (\<forall>k r sh. (r, sh) \<in> set (tensor_shapes s k) \<longrightarrow> r \<le> replay_unique_tensor_num s)"

definition same_config :: "'t manager \<Rightarrow> 't manager \<Rightarrow> bool" where
  "same_config s s' \<longleftrightarrow>
     dependency_permanent s' = dependency_permanent s \<and>
     tensor_with_device s' = tensor_with_device s \<and>
     sorted_nodes s' = sorted_nodes s"




text \<open>
  The nodes the traversal selects, in the order it meets them, and all the nodes
  below a list of nodes.
\<close>

function selected :: "'t env \<Rightarrow> string list \<Rightarrow> node list \<Rightarrow> node list" where
  "selected env skips [] = []"
| "selected env skips (child # rest) =
     (if list_ex (\<lambda>x. contains x (name child)) skips then selected env skips rest
      else if is_qualified env child then child # selected env skips rest
      else selected env skips (children child) @ selected env skips rest)"
  by pat_completeness auto
termination
proof (relation "measure (\<lambda>(env, skips, ns). size_list size ns)", goal_cases)
  case (4 env skips child rest)
  then show ?case by (cases child) simp
qed simp_all

function preorder :: "node list \<Rightarrow> node list" where
  "preorder [] = []"
| "preorder (child # rest) = child # preorder (children child) @ preorder rest"
  by pat_completeness auto
termination
proof (relation "measure (size_list size)", goal_cases)
  case (2 child rest)
  then show ?case by (cases child) simp
qed simp_all

text \<open>Reading a component off the result of a stage.\<close>

definition observe :: "('s \<Rightarrow> 'a) \<Rightarrow> error + 's \<Rightarrow> error + 'a" where
  "observe f r = map_sum id f r"

definition replay_id :: "int \<Rightarrow> t_id \<Rightarrow> bool \<Rightarrow> 't manager \<Rightarrow> nat option" where
  "replay_id nid k inp s = tensors_mapping s (nid, k, inp)"

definition replay_order :: "'t manager \<Rightarrow> int list" where
  "replay_order s = map node_id (sorted_nodes s)"


text \<open>
  The working registry at the start of round \<open>i\<close> of the execution loop, and what
  \<^verbatim>\<open>reset_registry\<close> would derive from the permanent registry at that point.
\<close>

definition registry_at_round ::
  "'t env \<Rightarrow> node \<Rightarrow> 't manager \<Rightarrow> nat \<Rightarrow> error + (nat \<times> 't pyval) list" where
  "registry_at_round env root s i =
     (case preprocess_graph env root s of
        Inl e \<Rightarrow> Inl e
      | Inr s1 \<Rightarrow> observe tensor_registry (run_iters env [0 ..< i] s1))"

definition rebuilt_at_round ::
  "'t env \<Rightarrow> node \<Rightarrow> 't manager \<Rightarrow> nat \<Rightarrow> error + (nat \<times> 't pyval) list" where
  "rebuilt_at_round env root s i =
     (case preprocess_graph env root s of
        Inl e \<Rightarrow> Inl e
      | Inr s1 \<Rightarrow>
          (case run_iters env [0 ..< i] s1 of
             Inl e \<Rightarrow> Inl e
           | Inr s2 \<Rightarrow> place_items env s2 (tensor_registry_permanent s2)))"

section \<open>Example traces\<close>

text \<open>
  A resolver that knows every \<^verbatim>\<open>aten::\<close> operator but \<^verbatim>\<open>aten::unknown\<close>; each resolved
  operator returns the tensor \<open>7\<close>. Random tensors are the tensor \<open>0\<close>.
\<close>

definition ex_op :: "nat callable" where
  "ex_op args = Inr (PTensor 7)"

definition ex_env :: "nat env" where
  "ex_env =
     \<lparr> is_qualified = (\<lambda>n. startswith (name n) ''aten::''),
       skip_op = (\<lambda>n. False),
       is_fbgemm_forward = (\<lambda>n. False),
       is_fbgemm_backward = (\<lambda>n. False),
       is_fbgemm_forward_unweighted = (\<lambda>n. False),
       fbgemm_input_args_indices = (\<lambda>n. []),
       build_fbgemm_func = (\<lambda>n c. ((ex_op, ex_op), 1)),
       build_torchscript_func =
         (\<lambda>n. if name n = ''aten::unknown'' then (None, 0) else (Some ex_op, 1)),
       generate_fbgemm_tensors = (\<lambda>n c. []),
       TORCH_DTYPES_RNG = [''float'' \<mapsto> (\<lambda>sh. 0), ''long'' \<mapsto> (\<lambda>sh. 0)],
       is_tensor =
         (\<lambda>n idx. case nth_opt (input_types n) idx of
                     None \<Rightarrow> False
                   | Some ty \<Rightarrow> startswith ty ''Tensor''),
       is_tensor_list = (\<lambda>n idx. False),
       to_cuda = (\<lambda>c t. t),
       to_float64 = (\<lambda>t. t),
       setitem = (\<lambda>v i a b. Inr v),
       tensor_bool = (\<lambda>t. Inr True),
       tensor_iter = (\<lambda>t. Inl TypeError) \<rparr>"

definition ex_key :: "int \<Rightarrow> t_id" where
  "ex_key i = [EInt i, EInt i, EInt 0, EInt 4, EInt 4, EStr ''cuda:0'']"

definition ex_root :: "node list \<Rightarrow> node" where
  "ex_root ns = Node 1 ''root'' ns [] [] [] [] [] []"

text \<open>An operator node given by its id, its name and the keys and shapes of its tensors.\<close>

definition ex_node ::
  "int \<Rightarrow> string \<Rightarrow> (int \<times> shape) list \<Rightarrow> (int \<times> shape) list \<Rightarrow> node" where
  "ex_node i nm ins outs =
     Node i nm []
       (map (\<lambda>(k, sh). (''Tensor(float)'', ex_key k, sh)) ins)
       (map (\<lambda>(k, sh). (''Tensor(float)'', ex_key k, sh)) outs)
       (map (\<lambda>(k, sh). ITensor (ex_key k)) ins)
       (map (\<lambda>(k, sh). ''Tensor(float)'') ins)
       (map snd ins)
       (map (\<lambda>(k, sh). ''Tensor(float)'') outs)"


text \<open>An operator without implementation.\<close>

definition ex_unresolved :: node where
  "ex_unresolved = ex_root [ex_node 2 ''aten::unknown'' [] []]"

text \<open>A producer and its consumer, the consumer listed first.\<close>

definition ex_chain :: node where
  "ex_chain =
     ex_root [ex_node 3 ''aten::relu'' [(1, [4])] [(2, [4])],
              ex_node 2 ''aten::ones'' [] [(1, [4])]]"


definition ex_manager :: "nat manager" where
  "ex_manager = init_manager 0 2 (- 1) False"

text \<open>The fresh manager with one key counted as an input.\<close>

definition ex_tracked :: "nat manager" where
  "ex_tracked = ex_manager\<lparr> dependency_permanent := [take 5 (ex_key 1) \<mapsto> 1] \<rparr>"

text \<open>A manager with a seeded tensor on a device and an entry that is \<^verbatim>\<open>None\<close>.\<close>

definition ex_seeded :: "nat manager" where
  "ex_seeded =
     ex_manager\<lparr> tensor_registry_permanent := [(1, PTensor 0), (2, PNone)],
                 tensor_device := [1 \<mapsto> EStr ''cuda:0''] \<rparr>"

lemmas ex_defs =
  ex_env_def ex_manager_def init_manager_def ex_root_def ex_node_def ex_key_def ex_op_def
  ex_tracked_def

section \<open>Notions used in the proofs\<close>


text \<open>A node whose operator the resolver cannot resolve.\<close>

definition unresolvable :: "'t env \<Rightarrow> node \<Rightarrow> bool" where
  "unresolvable env n \<longleftrightarrow>
     \<not> is_fbgemm_forward env n \<and> \<not> is_fbgemm_backward env n \<and>
     fst (build_torchscript_func env n) = None"

text \<open>\<open>n\<close> calls of \<^verbatim>\<open>reset_registry\<close> in a row.\<close>

definition reset_times :: "'t env \<Rightarrow> nat \<Rightarrow> 't manager \<Rightarrow> error + 't manager" where
  "reset_times env n s =
     ((\<lambda>r. case r of Inl e \<Rightarrow> Inl e | Inr s1 \<Rightarrow> reset_registry env s1) ^^ n) (Inr s)"










section \<open>Properties\<close>

subsection \<open>The identity resolver\<close>


lemma inv_seen: "resolver_inv s \<Longrightarrow> (r, sh) \<in> set (tensor_shapes s k) \<Longrightarrow> k \<in> original_unique_tensors s"
  unfolding resolver_inv_def by force

lemma inv_le: "resolver_inv s \<Longrightarrow> (r, sh) \<in> set (tensor_shapes s k) \<Longrightarrow> r \<le> replay_unique_tensor_num s"
  unfolding resolver_inv_def by blast

lemma inv_dsnd: "resolver_inv s \<Longrightarrow> distinct (map snd (tensor_shapes s k))"
  unfolding resolver_inv_def by blast

lemma inv_dfst: "resolver_inv s \<Longrightarrow> distinct (map fst (tensor_shapes s k))"
  unfolding resolver_inv_def by blast

lemma find_shape_None:
  "find (\<lambda>(r, pre). sh = pre) xs = None \<longleftrightarrow> sh \<notin> snd ` set xs"
  by (induction xs) auto

lemma find_shape_Some:
  "distinct (map snd xs) \<Longrightarrow> (r, sh) \<in> set xs \<Longrightarrow> find (\<lambda>(r, pre). sh = pre) xs = Some (r, sh)"
  by (induction xs) (auto simp: rev_image_eqI)

lemma find_shape_SomeD:
  "find (\<lambda>(r, pre). sh = pre) xs = Some (r, p) \<Longrightarrow> (r, sh) \<in> set xs \<and> p = sh"
  by (induction xs) (auto split: if_splits)

lemma mint_shapes:
  "tensor_shapes (mint nid k sh inp d s) k' =
     (if k' = k then List.insert (Suc (replay_unique_tensor_num s), sh) (tensor_shapes s k)
      else tensor_shapes s k')"
  by (simp add: mint_def Let_def)

lemma mint_num: "replay_unique_tensor_num (mint nid k sh inp d s) = Suc (replay_unique_tensor_num s)"
  by (simp add: mint_def Let_def)

lemma mint_seen: "original_unique_tensors (mint nid k sh inp d s) = original_unique_tensors s"
  by (simp add: mint_def Let_def)

lemma mint_mapping:
  "tensors_mapping (mint nid k sh inp d s) = (tensors_mapping s)((nid, k, inp) \<mapsto> Suc (replay_unique_tensor_num s))"
  by (simp add: mint_def Let_def)

lemma mint_inv:
  assumes "resolver_inv s" "k \<in> original_unique_tensors s" "sh \<notin> snd ` set (tensor_shapes s k)"
  shows "resolver_inv (mint nid k sh inp d s)"
proof -
  have nf: "Suc (replay_unique_tensor_num s) \<notin> fst ` set (tensor_shapes s k)"
    using inv_le[OF assms(1)] by fastforce
  then have nin: "(Suc (replay_unique_tensor_num s), sh) \<notin> set (tensor_shapes s k)"
    by force
  have 1: "\<forall>k'. k' \<notin> original_unique_tensors (mint nid k sh inp d s) \<longrightarrow> tensor_shapes (mint nid k sh inp d s) k' = []"
    using assms(1,2) by (auto simp: mint_shapes mint_seen resolver_inv_def)
  have 2: "\<forall>k'. distinct (map snd (tensor_shapes (mint nid k sh inp d s) k'))"
    using inv_dsnd[OF assms(1)] assms(3) nin by (auto simp: mint_shapes List.insert_def)
  have 3: "\<forall>k'. distinct (map fst (tensor_shapes (mint nid k sh inp d s) k'))"
    using inv_dfst[OF assms(1)] nf nin by (auto simp: mint_shapes List.insert_def)
  have 4: "\<forall>k' r sh'. (r, sh') \<in> set (tensor_shapes (mint nid k sh inp d s) k') \<longrightarrow> r \<le> replay_unique_tensor_num (mint nid k sh inp d s)"
    using inv_le[OF assms(1)] by (auto simp: mint_shapes mint_num le_Suc_eq)
  show ?thesis unfolding resolver_inv_def using 1 2 3 4 by blast
qed

lemma add_inv: "resolver_inv s \<Longrightarrow> resolver_inv (add_unique_tensor nid k sh inp d s)"
proof -
  assume inv: "resolver_inv s"
  show ?thesis
  proof (cases "k \<in> original_unique_tensors s")
    case False
    let ?s = "s\<lparr> original_unique_tensors := insert k (original_unique_tensors s) \<rparr>"
    have e: "tensor_shapes s k = []" using inv False by (simp add: resolver_inv_def)
    have "resolver_inv ?s" using inv by (simp add: resolver_inv_def)
    then have "resolver_inv (mint nid k sh inp d ?s)"
      by (rule mint_inv) (simp_all add: e)
    then show ?thesis using False by (simp add: add_unique_tensor_def)
  next
    case True
    show ?thesis
    proof (cases "find (\<lambda>(r, pre). sh = pre) (tensor_shapes s k)")
      case None
      then have "sh \<notin> snd ` set (tensor_shapes s k)" by (simp add: find_shape_None)
      then show ?thesis using True None inv by (simp add: add_unique_tensor_def mint_inv)
    next
      case (Some a)
      then show ?thesis using True inv
        by (cases a) (simp add: add_unique_tensor_def resolver_inv_def)
    qed
  qed
qed

lemma add_shapes:
  assumes "resolver_inv s"
  shows "snd ` set (tensor_shapes (add_unique_tensor nid k sh inp d s) k') =
         snd ` set (tensor_shapes s k') \<union> (if k' = k then {sh} else {})"
proof (cases "k \<in> original_unique_tensors s")
  case False
  then show ?thesis by (auto simp: add_unique_tensor_def mint_shapes)
next
  case True
  show ?thesis
  proof (cases "find (\<lambda>(r, pre). sh = pre) (tensor_shapes s k)")
    case None
    then show ?thesis using True by (auto simp: add_unique_tensor_def mint_shapes)
  next
    case (Some a)
    obtain r p where a: "a = (r, p)" by (cases a)
    from Some a have "(r, sh) \<in> set (tensor_shapes s k)" by (auto dest: find_shape_SomeD)
    then have "sh \<in> snd ` set (tensor_shapes s k)" by force
    then show ?thesis using True Some a by (auto simp: add_unique_tensor_def)
  qed
qed

lemma add_mono:
  "(r, sh') \<in> set (tensor_shapes s k') \<Longrightarrow>
   (r, sh') \<in> set (tensor_shapes (add_unique_tensor nid k sh inp d s) k')"
  by (auto simp: add_unique_tensor_def mint_shapes split: option.splits)

lemma add_hit:
  assumes "resolver_inv s" "(r, sh) \<in> set (tensor_shapes s k)"
  shows "add_unique_tensor nid k sh inp d s =
         s\<lparr> tensors_mapping := (tensors_mapping s)((nid, k, inp) \<mapsto> r) \<rparr>"
  using assms inv_seen[OF assms] find_shape_Some[OF inv_dsnd[OF assms(1)] assms(2)]
  by (simp add: add_unique_tensor_def)

lemma add_miss:
  assumes "sh \<notin> snd ` set (tensor_shapes s k)"
  shows "tensors_mapping (add_unique_tensor nid k sh inp d s) (nid, k, inp) =
           Some (Suc (replay_unique_tensor_num s)) \<and>
         replay_unique_tensor_num (add_unique_tensor nid k sh inp d s) =
           Suc (replay_unique_tensor_num s)"
  using assms
  by (auto simp: add_unique_tensor_def mint_mapping mint_num find_shape_None[symmetric]
           split: option.splits)


lemma add_frame:
  "dependency_permanent (add_unique_tensor nid k sh inp d s) = dependency_permanent s"
  "tensor_with_device (add_unique_tensor nid k sh inp d s) = tensor_with_device s"
  "sorted_nodes (add_unique_tensor nid k sh inp d s) = sorted_nodes s"
  by (auto simp: add_unique_tensor_def mint_def Let_def split: option.splits)





lemma same_config_refl: "same_config s s"
  by (simp add: same_config_def)

lemma same_config_trans: "same_config s s1 \<Longrightarrow> same_config s1 s2 \<Longrightarrow> same_config s s2"
  by (simp add: same_config_def)

lemma same_config_add: "same_config s (add_unique_tensor nid k sh inp d s)"
  by (simp add: same_config_def add_frame)

lemma same_config_tracked: "same_config s s' \<Longrightarrow> tracked s' = tracked s"
  by (auto simp: same_config_def tracked_def key_of_def fun_eq_iff)

lemma same_config_key_of: "same_config s s' \<Longrightarrow> key_of s' = key_of s"
  by (auto simp: same_config_def key_of_def fun_eq_iff)

lemma same_config_arg_shapes: "same_config s s' \<Longrightarrow> arg_shapes s' = arg_shapes s"
  by (simp add: arg_shapes_def fun_eq_iff same_config_tracked same_config_key_of)

lemma arg_shapes_Nil: "arg_shapes s [] k = []"
  by (simp add: arg_shapes_def)

lemma arg_shapes_Cons:
  "arg_shapes s ((ty, k0, sh) # rest) k =
     (if tracked s k0 \<and> key_of s k0 = k then sh # arg_shapes s rest k else arg_shapes s rest k)"
  by (simp add: arg_shapes_def)

lemma arg_shapes_append: "arg_shapes s (xs @ ys) k = arg_shapes s xs k @ arg_shapes s ys k"
  by (simp add: arg_shapes_def)

lemma resolve_args_step:
  "resolve_args inp nid ((ty, k, sh) # rest) s = Inr s' \<Longrightarrow>
     resolve_args inp nid rest
       (if tracked s k then add_unique_tensor nid (key_of s k) sh inp
             (if tensor_with_device s then k ! 5 else EInt (- 1)) s else s) = Inr s'"
  by (auto simp: tracked_def key_of_def Let_def split: if_splits)

lemma resolve_args_inv:
  "resolver_inv s \<Longrightarrow> resolve_args inp nid args s = Inr s' \<Longrightarrow>
     resolver_inv s' \<and> same_config s s' \<and>
     (\<forall>k. snd ` set (tensor_shapes s' k) = snd ` set (tensor_shapes s k) \<union> set (arg_shapes s args k)) \<and>
     (\<forall>k r sh. (r, sh) \<in> set (tensor_shapes s k) \<longrightarrow> (r, sh) \<in> set (tensor_shapes s' k))"
proof (induction args arbitrary: s)
  case Nil
  then show ?case by (simp add: same_config_refl arg_shapes_Nil)
next
  case (Cons a rest)
  obtain ty k sh where a: "a = (ty, k, sh)" by (cases a)
  let ?d = "if tensor_with_device s then k ! 5 else EInt (- 1)"
  let ?s1 = "if tracked s k then add_unique_tensor nid (key_of s k) sh inp ?d s else s"
  have step: "resolve_args inp nid rest ?s1 = Inr s'"
    using Cons.prems(2) unfolding a by (rule resolve_args_step)
  have inv1: "resolver_inv ?s1" using Cons.prems(1) by (simp add: add_inv)
  have cfg1: "same_config s ?s1" by (simp add: same_config_add same_config_refl)
  have sh1: "\<forall>k'. snd ` set (tensor_shapes ?s1 k') =
      snd ` set (tensor_shapes s k') \<union> (if tracked s k \<and> key_of s k = k' then {sh} else {})"
    using add_shapes[OF Cons.prems(1)] by auto
  have mono1: "\<forall>k' r sh'. (r, sh') \<in> set (tensor_shapes s k') \<longrightarrow> (r, sh') \<in> set (tensor_shapes ?s1 k')"
    by (simp add: add_mono)
  from Cons.IH[OF inv1 step] have
    i: "resolver_inv s'" and c: "same_config ?s1 s'" and
    sh: "\<forall>k. snd ` set (tensor_shapes s' k) = snd ` set (tensor_shapes ?s1 k) \<union> set (arg_shapes ?s1 rest k)" and
    mono: "\<forall>k r sh. (r, sh) \<in> set (tensor_shapes ?s1 k) \<longrightarrow> (r, sh) \<in> set (tensor_shapes s' k)"
    by blast+
  have as: "arg_shapes ?s1 = arg_shapes s" using cfg1 by (rule same_config_arg_shapes)
  have "\<forall>k'. snd ` set (tensor_shapes s' k') = snd ` set (tensor_shapes s k') \<union> set (arg_shapes s (a # rest) k')"
  proof
    fix k'
    have "snd ` set (tensor_shapes s' k') = snd ` set (tensor_shapes ?s1 k') \<union> set (arg_shapes s rest k')"
      using sh as by simp
    also have "\<dots> = snd ` set (tensor_shapes s k') \<union> (if tracked s k \<and> key_of s k = k' then {sh} else {}) \<union> set (arg_shapes s rest k')"
      using sh1 by simp
    also have "\<dots> = snd ` set (tensor_shapes s k') \<union> set (arg_shapes s (a # rest) k')"
      unfolding a by (auto simp: arg_shapes_Cons)
    finally show "snd ` set (tensor_shapes s' k') = snd ` set (tensor_shapes s k') \<union> set (arg_shapes s (a # rest) k')" .
  qed
  moreover have "same_config s s'" using cfg1 c by (rule same_config_trans)
  moreover have "\<forall>k r sh. (r, sh) \<in> set (tensor_shapes s k) \<longrightarrow> (r, sh) \<in> set (tensor_shapes s' k)"
    using mono1 mono by blast
  ultimately show ?case using i by blast
qed

lemma resolve_nodes_inv:
  "resolver_inv s \<Longrightarrow> resolve_nodes ns s = Inr s' \<Longrightarrow>
     resolver_inv s' \<and> same_config s s' \<and>
     (\<forall>k. snd ` set (tensor_shapes s' k) = snd ` set (tensor_shapes s k) \<union> set (observed_shapes s ns k)) \<and>
     (\<forall>k r sh. (r, sh) \<in> set (tensor_shapes s k) \<longrightarrow> (r, sh) \<in> set (tensor_shapes s' k))"
proof (induction ns arbitrary: s)
  case Nil
  then show ?case by (simp add: same_config_refl observed_shapes_def)
next
  case (Cons n ns)
  from Cons.prems(2) obtain s1 s2 where
    r1: "resolve_args True (node_id n) (get_input_tensors n) s = Inr s1" and
    r2: "resolve_args False (node_id n) (get_output_tensors n) s1 = Inr s2" and
    r3: "resolve_nodes ns s2 = Inr s'"
    by (auto split: sum.splits)
  from resolve_args_inv[OF Cons.prems(1) r1] have
    i1: "resolver_inv s1" and c1: "same_config s s1" and
    sh1: "\<forall>k. snd ` set (tensor_shapes s1 k) = snd ` set (tensor_shapes s k) \<union> set (arg_shapes s (get_input_tensors n) k)" and
    m1: "\<forall>k r sh. (r, sh) \<in> set (tensor_shapes s k) \<longrightarrow> (r, sh) \<in> set (tensor_shapes s1 k)"
    by blast+
  from resolve_args_inv[OF i1 r2] have
    i2: "resolver_inv s2" and c2: "same_config s1 s2" and
    sh2: "\<forall>k. snd ` set (tensor_shapes s2 k) = snd ` set (tensor_shapes s1 k) \<union> set (arg_shapes s1 (get_output_tensors n) k)" and
    m2: "\<forall>k r sh. (r, sh) \<in> set (tensor_shapes s1 k) \<longrightarrow> (r, sh) \<in> set (tensor_shapes s2 k)"
    by blast+
  from Cons.IH[OF i2 r3] have
    i3: "resolver_inv s'" and c3: "same_config s2 s'" and
    sh3: "\<forall>k. snd ` set (tensor_shapes s' k) = snd ` set (tensor_shapes s2 k) \<union> set (observed_shapes s2 ns k)" and
    m3: "\<forall>k r sh. (r, sh) \<in> set (tensor_shapes s2 k) \<longrightarrow> (r, sh) \<in> set (tensor_shapes s' k)"
    by blast+
  have c02: "same_config s s2" using c1 c2 by (rule same_config_trans)
  have e1: "arg_shapes s1 = arg_shapes s" using c1 by (rule same_config_arg_shapes)
  have e2: "observed_shapes s2 = observed_shapes s"
    using same_config_arg_shapes[OF c02] by (simp add: observed_shapes_def fun_eq_iff)
  have s: "\<forall>k. snd ` set (tensor_shapes s' k) = snd ` set (tensor_shapes s k) \<union> set (observed_shapes s (n # ns) k)"
  proof
    fix k
    have "snd ` set (tensor_shapes s' k) = snd ` set (tensor_shapes s2 k) \<union> set (observed_shapes s ns k)"
      using sh3 e2 by simp
    also have "snd ` set (tensor_shapes s2 k) = snd ` set (tensor_shapes s1 k) \<union> set (arg_shapes s (get_output_tensors n) k)"
      using sh2 e1 by simp
    also have "snd ` set (tensor_shapes s1 k) = snd ` set (tensor_shapes s k) \<union> set (arg_shapes s (get_input_tensors n) k)"
      using sh1 by simp
    finally show "snd ` set (tensor_shapes s' k) = snd ` set (tensor_shapes s k) \<union> set (observed_shapes s (n # ns) k)"
      by (simp add: observed_shapes_def arg_shapes_append Un_assoc)
  qed
  have c: "same_config s s'" using c02 c3 by (rule same_config_trans)
  have m: "\<forall>k r sh. (r, sh) \<in> set (tensor_shapes s k) \<longrightarrow> (r, sh) \<in> set (tensor_shapes s' k)"
    using m1 m2 m3 by simp
  show ?case using i3 c s m by simp
qed

lemma fresh_inv: "resolver_fresh s \<Longrightarrow> resolver_inv s"
  by (simp add: resolver_fresh_def resolver_inv_def)

lemma inv_card:
  assumes "resolver_inv s"
  shows "card (fst ` set (tensor_shapes s k)) = card (snd ` set (tensor_shapes s k))"
proof -
  have "card (set (map fst (tensor_shapes s k))) = length (map fst (tensor_shapes s k))"
    using inv_dfst[OF assms] by (rule distinct_card)
  moreover have "card (set (map snd (tensor_shapes s k))) = length (map snd (tensor_shapes s k))"
    using inv_dsnd[OF assms] by (rule distinct_card)
  ultimately show ?thesis by simp
qed

text \<open>
  C6. In a state the first pass of \<^verbatim>\<open>analyze_tensors\<close> reaches from a fresh resolver,
  \<^verbatim>\<open>add_unique_tensor\<close> gives an occurrence whose shape is already recorded under its
  key the id recorded with that shape and mints nothing; it gives an occurrence with a
  shape not yet recorded the next id, which no key has recorded before; and the number
  of ids recorded under a key is the number of distinct shapes the pass met under it.
\<close>

theorem identity_resolver_ids_per_shape:
  assumes "resolver_fresh s0" and "resolve_nodes ns s0 = Inr s"
  shows "(\<forall>r. (r, sh) \<in> set (tensor_shapes s k) \<longrightarrow>
            tensors_mapping (add_unique_tensor nid k sh inp d s) (nid, k, inp) = Some r \<and>
            replay_unique_tensor_num (add_unique_tensor nid k sh inp d s) =
              replay_unique_tensor_num s)
       \<and> (sh \<notin> snd ` set (tensor_shapes s k) \<longrightarrow>
            tensors_mapping (add_unique_tensor nid k sh inp d s) (nid, k, inp) =
              Some (replay_unique_tensor_num s + 1) \<and>
            (\<forall>k'. replay_unique_tensor_num s + 1 \<notin> fst ` set (tensor_shapes s k')))
       \<and> card (fst ` set (tensor_shapes s k)) = card (set (observed_shapes s0 ns k))"
proof -
  have inv0: "resolver_inv s0" using assms(1) by (rule fresh_inv)
  from resolve_nodes_inv[OF inv0 assms(2)] have
    inv: "resolver_inv s" and
    shapes: "\<forall>k. snd ` set (tensor_shapes s k) =
                 snd ` set (tensor_shapes s0 k) \<union> set (observed_shapes s0 ns k)"
    by blast+
  have hit: "\<forall>r. (r, sh) \<in> set (tensor_shapes s k) \<longrightarrow>
            tensors_mapping (add_unique_tensor nid k sh inp d s) (nid, k, inp) = Some r \<and>
            replay_unique_tensor_num (add_unique_tensor nid k sh inp d s) =
              replay_unique_tensor_num s"
    using add_hit[OF inv] by simp
  have new: "\<forall>k'. replay_unique_tensor_num s + 1 \<notin> fst ` set (tensor_shapes s k')"
    using inv_le[OF inv] by fastforce
  have miss: "sh \<notin> snd ` set (tensor_shapes s k) \<longrightarrow>
            tensors_mapping (add_unique_tensor nid k sh inp d s) (nid, k, inp) =
              Some (replay_unique_tensor_num s + 1) \<and>
            (\<forall>k'. replay_unique_tensor_num s + 1 \<notin> fst ` set (tensor_shapes s k'))"
    using add_miss[of sh s k nid inp d] new by simp
  have "snd ` set (tensor_shapes s k) = set (observed_shapes s0 ns k)"
    using shapes assms(1) by (simp add: resolver_fresh_def)
  then have count: "card (fst ` set (tensor_shapes s k)) = card (set (observed_shapes s0 ns k))"
    using inv_card[OF inv, of k] by simp
  show ?thesis using hit miss count by blast
qed

lemmas resolver_defs =
  add_unique_tensor_def mint_def key_of_def tracked_def arg_shapes_def observed_shapes_def
  resolver_fresh_def Let_def

theorem identity_resolver_ids_per_shape_witness:
  "resolver_fresh ex_tracked \<and>
   (\<exists>s. resolve_nodes [ex_node 2 ''aten::view'' [(1, [4])] [(1, [2, 2])]] ex_tracked = Inr s \<and>
        card (fst ` set (tensor_shapes s (take 5 (ex_key 1)))) = 2)"
proof -
  let ?ns = "[ex_node 2 ''aten::view'' [(1, [4])] [(1, [2, 2])]]"
  have fresh: "resolver_fresh ex_tracked"
    by (simp add: ex_defs resolver_defs)
  obtain s where s: "resolve_nodes ?ns ex_tracked = Inr s"
    by (simp add: ex_defs resolver_defs)
  have obs: "observed_shapes ex_tracked ?ns (take 5 (ex_key 1)) = [[4], [2, 2]]"
    by (simp add: ex_defs resolver_defs)
  have "card (fst ` set (tensor_shapes s (take 5 (ex_key 1)))) =
        card (set (observed_shapes ex_tracked ?ns (take 5 (ex_key 1))))"
    using identity_resolver_ids_per_shape[OF fresh s] by blast
  then have "card (fst ` set (tensor_shapes s (take 5 (ex_key 1)))) = 2"
    by (simp add: obs)
  then show ?thesis using fresh s by blast
qed



subsection \<open>The lifetime analyzer\<close>


















subsection \<open>The graph flattener\<close>

text \<open>What the steps of the traversal do to the fields the properties are about.\<close>

lemma record_skip_fields:
  "sorted_nodes (record_skip n s) = sorted_nodes s"
  "skip_node_names (record_skip n s) = skip_node_names s"
  "funcs (record_skip n s) = funcs s"
  "actual_skip_nodes (record_skip n s) = actual_skip_nodes s @ [name n]"
  "actual_skip_nodes_cnt (record_skip n s) = Suc (actual_skip_nodes_cnt s)"
  by (simp_all add: record_skip_def)

lemma foldl_count_dependency_fields:
  "sorted_nodes (foldl count_dependency s ks) = sorted_nodes s \<and>
   skip_node_names (foldl count_dependency s ks) = skip_node_names s \<and>
   funcs (foldl count_dependency s ks) = funcs s \<and>
   actual_skip_nodes (foldl count_dependency s ks) = actual_skip_nodes s \<and>
   actual_skip_nodes_cnt (foldl count_dependency s ks) = actual_skip_nodes_cnt s"
  by (induction ks arbitrary: s) (simp_all add: count_dependency_def)

lemma select_node_fields:
  "sorted_nodes (select_node c s) = sorted_nodes s @ [c]"
  "skip_node_names (select_node c s) = skip_node_names s"
  "funcs (select_node c s) = funcs s"
  "actual_skip_nodes (select_node c s) = actual_skip_nodes s"
  "actual_skip_nodes_cnt (select_node c s) = actual_skip_nodes_cnt s"
  by (simp_all add: select_node_def Let_def foldl_count_dependency_fields)

lemma build_func_fields:
  assumes "build_func env n s = Inr (fc, s1)"
  shows "sorted_nodes s1 = sorted_nodes s" "skip_node_names s1 = skip_node_names s"
    "funcs s1 = funcs s"
    "set (actual_skip_nodes s) \<subseteq> set (actual_skip_nodes s1)"
    "actual_skip_nodes_cnt s \<le> actual_skip_nodes_cnt s1"
  using assms
  by (auto simp: build_func_def record_skip_fields split: if_splits prod.splits option.splits)

lemma build_func_unresolvable:
  assumes "unresolvable env n"
  shows "build_func env n s = Inr ((None, snd (build_torchscript_func env n)), record_skip n s)"
  using assms by (auto simp: unresolvable_def build_func_def split: prod.splits option.splits)

lemma dfs_traverse_result:
  "dfs_traverse env cs s = Inr s' \<Longrightarrow>
     skip_node_names s' = skip_node_names s \<and>
     sorted_nodes s' = sorted_nodes s @ selected env (skip_node_names s) cs \<and>
     set (actual_skip_nodes s) \<subseteq> set (actual_skip_nodes s') \<and>
     actual_skip_nodes_cnt s +
       length (filter (unresolvable env) (selected env (skip_node_names s) cs))
       \<le> actual_skip_nodes_cnt s' \<and>
     (\<forall>n\<in>set (selected env (skip_node_names s) cs).
        unresolvable env n \<longrightarrow> name n \<in> set (actual_skip_nodes s'))"
proof (induction env cs s arbitrary: s' rule: dfs_traverse.induct)
  case (1 env s)
  then show ?case by simp
next
  case (2 env child rest s)
  let ?skips = "skip_node_names s"
  show ?case
  proof (cases "list_ex (\<lambda>x. contains x (name child)) ?skips")
    case True
    then have run: "dfs_traverse env rest (record_skip child s) = Inr s'"
      using "2.prems" by simp
    from "2.IH"(1)[OF True run] show ?thesis
      using True by (simp add: record_skip_fields)
  next
    case False
    show ?thesis
    proof (cases "is_qualified env child")
      case True
      from "2.prems" False True obtain fc s1 where
        b: "build_func env child (select_node child s) = Inr (fc, s1)" and
        run: "dfs_traverse env rest (s1\<lparr> funcs := (funcs s1)(node_id child \<mapsto> fc) \<rparr>) = Inr s'"
        by (auto split: sum.splits)
      note f = build_func_fields[OF b]
      note ih = "2.IH"(2)[OF False True b refl run]
      have sk: "skip_node_names s1 = ?skips" using f(2) by (simp add: select_node_fields)
      have sn: "sorted_nodes s1 = sorted_nodes s @ [child]" using f(1) by (simp add: select_node_fields)
      have sel: "selected env ?skips (child # rest) = child # selected env ?skips rest"
        using False True by simp
      have mono: "set (actual_skip_nodes s) \<subseteq> set (actual_skip_nodes s1)"
        using f(4) by (simp add: select_node_fields)
      have cnt: "actual_skip_nodes_cnt s \<le> actual_skip_nodes_cnt s1"
        using f(5) by (simp add: select_node_fields)
      have un: "unresolvable env child \<Longrightarrow>
          name child \<in> set (actual_skip_nodes s1) \<and>
          Suc (actual_skip_nodes_cnt s) \<le> actual_skip_nodes_cnt s1"
        using b by (auto simp: build_func_unresolvable record_skip_fields select_node_fields)
      from ih have
        1: "skip_node_names s' = ?skips" and
        2: "sorted_nodes s' = sorted_nodes s @ child # selected env ?skips rest" and
        3: "set (actual_skip_nodes s1) \<subseteq> set (actual_skip_nodes s')" and
        4: "actual_skip_nodes_cnt s1 + length (filter (unresolvable env) (selected env ?skips rest))
              \<le> actual_skip_nodes_cnt s'" and
        5: "\<forall>n\<in>set (selected env ?skips rest). unresolvable env n \<longrightarrow> name n \<in> set (actual_skip_nodes s')"
        using sk sn by simp_all
      have c4: "actual_skip_nodes_cnt s +
          length (filter (unresolvable env) (selected env ?skips (child # rest)))
          \<le> actual_skip_nodes_cnt s'"
        unfolding sel using 4 cnt un by (cases "unresolvable env child") simp_all
      have c5: "\<forall>n\<in>set (selected env ?skips (child # rest)).
          unresolvable env n \<longrightarrow> name n \<in> set (actual_skip_nodes s')"
        unfolding sel using 5 3 un by auto
      show ?thesis using 1 2 3 mono c4 c5 unfolding sel by auto
    next
      case nq: False
      let ?s0 = "if skip_op env child then record_skip child s else s"
      from "2.prems" False nq obtain s1 where
        down: "dfs_traverse env (children child) ?s0 = Inr s1" and
        run: "dfs_traverse env rest s1 = Inr s'"
        by (auto split: sum.splits)
      note ih1 = "2.IH"(3)[OF False nq down]
      note ih2 = "2.IH"(4)[OF False nq down run]
      have sk0: "skip_node_names ?s0 = ?skips" by (simp add: record_skip_fields)
      have sn0: "sorted_nodes ?s0 = sorted_nodes s" by (simp add: record_skip_fields)
      have m0: "set (actual_skip_nodes s) \<subseteq> set (actual_skip_nodes ?s0)"
        by (auto simp: record_skip_fields)
      have c0: "actual_skip_nodes_cnt s \<le> actual_skip_nodes_cnt ?s0"
        by (simp add: record_skip_fields)
      have sel: "selected env ?skips (child # rest) =
          selected env ?skips (children child) @ selected env ?skips rest"
        using False nq by simp
      from ih1 have
        a1: "skip_node_names s1 = ?skips" and
        a2: "sorted_nodes s1 = sorted_nodes s @ selected env ?skips (children child)" and
        a3: "set (actual_skip_nodes ?s0) \<subseteq> set (actual_skip_nodes s1)" and
        a4: "actual_skip_nodes_cnt ?s0 +
               length (filter (unresolvable env) (selected env ?skips (children child)))
               \<le> actual_skip_nodes_cnt s1" and
        a5: "\<forall>n\<in>set (selected env ?skips (children child)).
               unresolvable env n \<longrightarrow> name n \<in> set (actual_skip_nodes s1)"
        unfolding sk0 sn0 by simp_all
      from ih2 have
        b1: "skip_node_names s' = ?skips" and
        b2: "sorted_nodes s' = sorted_nodes s1 @ selected env ?skips rest" and
        b3: "set (actual_skip_nodes s1) \<subseteq> set (actual_skip_nodes s')" and
        b4: "actual_skip_nodes_cnt s1 +
               length (filter (unresolvable env) (selected env ?skips rest))
               \<le> actual_skip_nodes_cnt s'" and
        b5: "\<forall>n\<in>set (selected env ?skips rest).
               unresolvable env n \<longrightarrow> name n \<in> set (actual_skip_nodes s')"
        unfolding a1 by simp_all
      have 2: "sorted_nodes s' = sorted_nodes s @ selected env ?skips (child # rest)"
        unfolding sel using a2 b2 by simp
      have 3: "set (actual_skip_nodes s) \<subseteq> set (actual_skip_nodes s')"
        using m0 a3 b3 by blast
      have 4: "actual_skip_nodes_cnt s +
          length (filter (unresolvable env) (selected env ?skips (child # rest)))
          \<le> actual_skip_nodes_cnt s'"
        unfolding sel using c0 a4 b4 by simp
      have 5: "\<forall>n\<in>set (selected env ?skips (child # rest)).
          unresolvable env n \<longrightarrow> name n \<in> set (actual_skip_nodes s')"
        unfolding sel using a5 b5 b3 by auto
      show ?thesis using b1 2 3 4 5 by simp
    qed
  qed
qed

lemma dfs_traverse_funcs:
  "dfs_traverse env cs s = Inr s' \<Longrightarrow>
     (\<forall>i. i \<notin> node_id ` set (selected env (skip_node_names s) cs) \<longrightarrow> funcs s' i = funcs s i) \<and>
     (distinct (map node_id (selected env (skip_node_names s) cs)) \<longrightarrow>
        (\<forall>n\<in>set (selected env (skip_node_names s) cs).
           unresolvable env n \<longrightarrow>
           funcs s' (node_id n) = Some (None, snd (build_torchscript_func env n))))"
proof (induction env cs s arbitrary: s' rule: dfs_traverse.induct)
  case (1 env s)
  then show ?case by simp
next
  case (2 env child rest s)
  let ?skips = "skip_node_names s"
  show ?case
  proof (cases "list_ex (\<lambda>x. contains x (name child)) ?skips")
    case True
    then have run: "dfs_traverse env rest (record_skip child s) = Inr s'"
      using "2.prems" by simp
    from "2.IH"(1)[OF True run] show ?thesis
      using True by (simp add: record_skip_fields)
  next
    case False
    show ?thesis
    proof (cases "is_qualified env child")
      case True
      from "2.prems" False True obtain fc s1 where
        b: "build_func env child (select_node child s) = Inr (fc, s1)" and
        run: "dfs_traverse env rest (s1\<lparr> funcs := (funcs s1)(node_id child \<mapsto> fc) \<rparr>) = Inr s'"
        by (auto split: sum.splits)
      note f = build_func_fields[OF b]
      have sk: "skip_node_names s1 = ?skips" using f(2) by (simp add: select_node_fields)
      have fs: "funcs s1 = funcs s" using f(3) by (simp add: select_node_fields)
      have sel: "selected env ?skips (child # rest) = child # selected env ?skips rest"
        using False True by simp
      have fc: "unresolvable env child \<Longrightarrow> fc = (None, snd (build_torchscript_func env child))"
        using b by (auto simp: build_func_unresolvable)
      from "2.IH"(2)[OF False True b refl run] have
        fr: "\<forall>i. i \<notin> node_id ` set (selected env ?skips rest) \<longrightarrow>
               funcs s' i = ((funcs s)(node_id child \<mapsto> fc)) i" and
        un: "distinct (map node_id (selected env ?skips rest)) \<longrightarrow>
               (\<forall>n\<in>set (selected env ?skips rest). unresolvable env n \<longrightarrow>
                  funcs s' (node_id n) = Some (None, snd (build_torchscript_func env n)))"
        using sk fs by simp_all
      have 1: "\<forall>i. i \<notin> node_id ` set (selected env ?skips (child # rest)) \<longrightarrow> funcs s' i = funcs s i"
        unfolding sel using fr by simp
      have 2: "distinct (map node_id (selected env ?skips (child # rest))) \<longrightarrow>
          (\<forall>n\<in>set (selected env ?skips (child # rest)). unresolvable env n \<longrightarrow>
             funcs s' (node_id n) = Some (None, snd (build_torchscript_func env n)))"
        unfolding sel using fr un fc by auto
      show ?thesis using 1 2 by simp
    next
      case nq: False
      let ?s0 = "if skip_op env child then record_skip child s else s"
      from "2.prems" False nq obtain s1 where
        down: "dfs_traverse env (children child) ?s0 = Inr s1" and
        run: "dfs_traverse env rest s1 = Inr s'"
        by (auto split: sum.splits)
      have sk0: "skip_node_names ?s0 = ?skips" by (simp add: record_skip_fields)
      have f0: "funcs ?s0 = funcs s" by (simp add: record_skip_fields)
      have sk1: "skip_node_names s1 = ?skips"
        using dfs_traverse_result[OF down] sk0 by simp
      have sel: "selected env ?skips (child # rest) =
          selected env ?skips (children child) @ selected env ?skips rest"
        using False nq by simp
      from "2.IH"(3)[OF False nq down] have
        fr1: "\<forall>i. i \<notin> node_id ` set (selected env ?skips (children child)) \<longrightarrow>
                funcs s1 i = funcs s i" and
        un1: "distinct (map node_id (selected env ?skips (children child))) \<longrightarrow>
               (\<forall>n\<in>set (selected env ?skips (children child)). unresolvable env n \<longrightarrow>
                  funcs s1 (node_id n) = Some (None, snd (build_torchscript_func env n)))"
        unfolding sk0 f0 by simp_all
      from "2.IH"(4)[OF False nq down run] have
        fr2: "\<forall>i. i \<notin> node_id ` set (selected env ?skips rest) \<longrightarrow> funcs s' i = funcs s1 i" and
        un2: "distinct (map node_id (selected env ?skips rest)) \<longrightarrow>
               (\<forall>n\<in>set (selected env ?skips rest). unresolvable env n \<longrightarrow>
                  funcs s' (node_id n) = Some (None, snd (build_torchscript_func env n)))"
        unfolding sk1 by simp_all
      have 1: "\<forall>i. i \<notin> node_id ` set (selected env ?skips (child # rest)) \<longrightarrow> funcs s' i = funcs s i"
        unfolding sel using fr1 fr2 by (auto simp: image_Un)
      have 2: "distinct (map node_id (selected env ?skips (child # rest))) \<longrightarrow>
          (\<forall>n\<in>set (selected env ?skips (child # rest)). unresolvable env n \<longrightarrow>
             funcs s' (node_id n) = Some (None, snd (build_torchscript_func env n)))"
      proof (intro impI ballI)
        fix n
        assume d: "distinct (map node_id (selected env ?skips (child # rest)))"
          and n: "n \<in> set (selected env ?skips (child # rest))" and u: "unresolvable env n"
        from d have dA: "distinct (map node_id (selected env ?skips (children child)))"
          and dB: "distinct (map node_id (selected env ?skips rest))"
          and dis: "node_id ` set (selected env ?skips (children child)) \<inter>
                    node_id ` set (selected env ?skips rest) = {}"
          unfolding sel by simp_all
        from n consider "n \<in> set (selected env ?skips (children child))"
          | "n \<in> set (selected env ?skips rest)"
          unfolding sel by auto
        then show "funcs s' (node_id n) = Some (None, snd (build_torchscript_func env n))"
        proof cases
          case 1
          then have "node_id n \<notin> node_id ` set (selected env ?skips rest)" using dis by blast
          then have "funcs s' (node_id n) = funcs s1 (node_id n)" using fr2 by simp
          then show ?thesis using un1 dA 1 u by simp
        next
          case 2
          then show ?thesis using un2 dB u by simp
        qed
      qed
      show ?thesis using 1 2 by simp
    qed
  qed
qed

lemma selected_subset: "set (selected env skips cs) \<subseteq> set (preorder cs)"
  by (induction env skips cs rule: selected.induct) auto

lemma selected_distinct:
  "distinct (map node_id (preorder cs)) \<Longrightarrow> distinct (map node_id (selected env skips cs))"
proof (induction env skips cs rule: selected.induct)
  case (1 env skips)
  then show ?case by simp
next
  case (2 env skips child rest)
  have A: "node_id ` set (selected env skips (children child)) \<subseteq> node_id ` set (preorder (children child))"
    using selected_subset by blast
  have B: "node_id ` set (selected env skips rest) \<subseteq> node_id ` set (preorder rest)"
    using selected_subset by blast
  from "2.prems" have
    d1: "distinct (map node_id (preorder (children child)))" and
    d2: "distinct (map node_id (preorder rest))" and
    d3: "node_id child \<notin> node_id ` set (preorder rest)" and
    d4: "node_id ` set (preorder (children child)) \<inter> node_id ` set (preorder rest) = {}"
    by auto
  show ?case
  proof (cases "list_ex (\<lambda>x. contains x (name child)) skips")
    case True
    then show ?thesis using "2.IH"(1)[OF True d2] by simp
  next
    case False
    show ?thesis
    proof (cases "is_qualified env child")
      case True
      then show ?thesis using "2.IH"(2)[OF False True d2] False d3 B by auto
    next
      case nq: False
      have dis: "node_id ` set (selected env skips (children child)) \<inter>
                 node_id ` set (selected env skips rest) = {}"
        using d4 A B by blast
      show ?thesis
        using "2.IH"(3)[OF False nq d1] "2.IH"(4)[OF False nq d2] False nq dis by simp
    qed
  qed
qed

lemma distinct_map_sort_key:
  assumes "distinct (map f xs)"
  shows "distinct (map f (sort_key f xs))"
proof -
  have "card (set (map f (sort_key f xs))) = card (set (map f xs))" by simp
  also have "\<dots> = length (map f xs)" using assms by (rule distinct_card)
  also have "\<dots> = length (map f (sort_key f xs))" by simp
  finally show ?thesis by (rule card_distinct)
qed

lemma extract_subgraph_order:
  assumes "extract_subgraph env root s = Inr s'"
  shows "sorted_nodes s' =
         sort_key node_id (sorted_nodes s @ selected env (skip_node_names s) (children root))"
proof -
  from assms obtain s1 where
    d: "dfs_traverse env (children root) s = Inr s1" and
    e: "s' = s1\<lparr> sorted_nodes := sort_key node_id (sorted_nodes s1) \<rparr>"
    by (auto simp: extract_subgraph_def split: sum.splits)
  show ?thesis using dfs_traverse_result[OF d] e by simp
qed

text \<open>
  C7. Started with an empty node list on a trace whose node ids are distinct,
  \<^verbatim>\<open>extract_subgraph\<close> leaves \<^verbatim>\<open>sorted_nodes\<close> strictly increasing by node id; and a
  second run on the same trace with the same skip list, whatever the rest of the
  manager holds, yields the same list.
\<close>

theorem execution_order_strictly_increasing:
  assumes "extract_subgraph env root s = Inr s'" and "sorted_nodes s = []"
    and "distinct (map node_id (preorder (children root)))"
    and "extract_subgraph env root t = Inr t'" and "sorted_nodes t = []"
    and "skip_node_names t = skip_node_names s"
  shows "sorted_wrt (<) (replay_order s') \<and> sorted_nodes t' = sorted_nodes s'"
proof -
  let ?sel = "selected env (skip_node_names s) (children root)"
  have o: "sorted_nodes s' = sort_key node_id ?sel"
    using extract_subgraph_order[OF assms(1)] assms(2) by simp
  have o': "sorted_nodes t' = sort_key node_id ?sel"
    using extract_subgraph_order[OF assms(4)] assms(5,6) by simp
  have "distinct (map node_id ?sel)" using assms(3) by (rule selected_distinct)
  then have d: "distinct (replay_order s')"
    unfolding replay_order_def o by (rule distinct_map_sort_key)
  have "sorted (replay_order s')" unfolding replay_order_def o by simp
  then have "sorted_wrt (<) (replay_order s')" using d by (simp add: strict_sorted_iff)
  then show ?thesis using o o' by simp
qed

lemmas flatten_defs =
  extract_subgraph_def select_node_def build_func_def count_dependency_def key_of_def
  record_skip_def observe_def replay_order_def Let_def

theorem execution_order_strictly_increasing_witness:
  "sorted_nodes ex_manager = [] \<and>
   distinct (map node_id (preorder (children ex_chain))) \<and>
   (\<exists>s'. extract_subgraph ex_env ex_chain ex_manager = Inr s' \<and>
         sorted_wrt (<) (replay_order s') \<and> replay_order s' = [2, 3])"
proof -
  have e: "sorted_nodes ex_manager = []" by (simp add: ex_defs)
  have d: "distinct (map node_id (preorder (children ex_chain)))"
    by (simp add: ex_defs ex_chain_def)
  obtain s' where s': "extract_subgraph ex_env ex_chain ex_manager = Inr s'"
    by (simp add: ex_defs ex_chain_def flatten_defs)
  have r: "replay_order s' = [2, 3]"
    using s' by (auto simp: ex_defs ex_chain_def flatten_defs)
  show ?thesis
    using execution_order_strictly_increasing[OF s' e d s' e refl] e d s' r by blast
qed

text \<open>
  C2, as the code has it. A selected node whose operator does not resolve is appended
  to \<^verbatim>\<open>sorted_nodes\<close> before \<^verbatim>\<open>build_func\<close> is called and stays there; \<^verbatim>\<open>build_func\<close>
  returns without raising, with no callable, and adds the node to the skip tally;
  and on such a node \<^verbatim>\<open>run_op\<close> returns at once, leaving the manager as it is. (With
  node ids distinct among the selected nodes, so that the entry of \<^verbatim>\<open>funcs\<close> is the
  node's own.)
\<close>

theorem unresolved_operator_kept_and_skipped:
  assumes "extract_subgraph env root s = Inr s'"
    and "n \<in> set (selected env (skip_node_names s) (children root))"
    and "unresolvable env n"
    and "distinct (map node_id (selected env (skip_node_names s) (children root)))"
  shows "build_func env n s0 =
           Inr ((None, snd (build_torchscript_func env n)), record_skip n s0) \<and>
         n \<in> set (sorted_nodes s') \<and>
         name n \<in> set (actual_skip_nodes s') \<and>
         actual_skip_nodes_cnt s < actual_skip_nodes_cnt s' \<and>
         funcs s' (node_id n) = Some (None, snd (build_torchscript_func env n)) \<and>
         run_op env n iter s' = Inr s'"
proof -
  let ?sel = "selected env (skip_node_names s) (children root)"
  from assms(1) obtain s1 where
    d: "dfs_traverse env (children root) s = Inr s1" and
    e: "s' = s1\<lparr> sorted_nodes := sort_key node_id (sorted_nodes s1) \<rparr>"
    by (auto simp: extract_subgraph_def split: sum.splits)
  from dfs_traverse_result[OF d] have
    sn: "sorted_nodes s1 = sorted_nodes s @ ?sel" and
    cnt: "actual_skip_nodes_cnt s + length (filter (unresolvable env) ?sel)
            \<le> actual_skip_nodes_cnt s1" and
    nm: "\<forall>n\<in>set ?sel. unresolvable env n \<longrightarrow> name n \<in> set (actual_skip_nodes s1)"
    by simp_all
  from dfs_traverse_funcs[OF d] assms(4) have
    fn: "\<forall>n\<in>set ?sel. unresolvable env n \<longrightarrow>
           funcs s1 (node_id n) = Some (None, snd (build_torchscript_func env n))"
    by simp
  have 1: "build_func env n s0 =
      Inr ((None, snd (build_torchscript_func env n)), record_skip n s0)"
    using assms(3) by (rule build_func_unresolvable)
  have 2: "n \<in> set (sorted_nodes s')" using e sn assms(2) by simp
  have 3: "name n \<in> set (actual_skip_nodes s')" using e nm assms(2,3) by simp
  have "n \<in> set (filter (unresolvable env) ?sel)" using assms(2,3) by simp
  then have "0 < length (filter (unresolvable env) ?sel)" by (rule length_pos_if_in_set)
  then have "actual_skip_nodes_cnt s < actual_skip_nodes_cnt s1" using cnt by linarith
  then have 4: "actual_skip_nodes_cnt s < actual_skip_nodes_cnt s'" using e by simp
  have 5: "funcs s' (node_id n) = Some (None, snd (build_torchscript_func env n))"
    using e fn assms(2,3) by simp
  have 6: "run_op env n iter s' = Inr s'" using 5 by (simp add: run_op_def)
  show ?thesis using 1 2 3 4 5 6 by simp
qed

theorem unresolved_operator_kept_and_skipped_witness:
  "ex_node 2 ''aten::unknown'' [] [] \<in>
     set (selected ex_env (skip_node_names ex_manager) (children ex_unresolved)) \<and>
   unresolvable ex_env (ex_node 2 ''aten::unknown'' [] []) \<and>
   distinct (map node_id (selected ex_env (skip_node_names ex_manager) (children ex_unresolved))) \<and>
   (\<exists>s'. extract_subgraph ex_env ex_unresolved ex_manager = Inr s' \<and>
         ex_node 2 ''aten::unknown'' [] [] \<in> set (sorted_nodes s') \<and>
         run_op ex_env (ex_node 2 ''aten::unknown'' [] []) 0 s' = Inr s')"
proof -
  let ?n = "ex_node 2 ''aten::unknown'' [] []"
  have sel: "selected ex_env (skip_node_names ex_manager) (children ex_unresolved) = [?n]"
    by (simp add: ex_defs ex_unresolved_def)
  have a: "?n \<in> set (selected ex_env (skip_node_names ex_manager) (children ex_unresolved))"
    unfolding sel by simp
  have u: "unresolvable ex_env ?n" by (simp add: unresolvable_def ex_defs)
  have d: "distinct (map node_id (selected ex_env (skip_node_names ex_manager) (children ex_unresolved)))"
    unfolding sel by simp
  obtain s' where s': "extract_subgraph ex_env ex_unresolved ex_manager = Inr s'"
    by (simp add: ex_defs ex_unresolved_def flatten_defs)
  show ?thesis
    using unresolved_operator_kept_and_skipped[OF s' a u d, where iter = 0] a u d s' by blast
qed

text \<open>An operator without implementation is in the execution list and in the skip tally.\<close>

theorem unresolved_operator_in_execution_list:
  "unresolvable ex_env (ex_node 2 ''aten::unknown'' [] []) \<and>
   observe replay_order (extract_subgraph ex_env ex_unresolved ex_manager) = Inr [2] \<and>
   observe actual_skip_nodes (extract_subgraph ex_env ex_unresolved ex_manager) =
     Inr [''aten::unknown'']"
  by (simp add: unresolvable_def ex_defs ex_unresolved_def flatten_defs)

subsection \<open>The registries\<close>

lemma to_device_registry:
  "to_device env (s\<lparr> tensor_registry := reg \<rparr>) v = to_device env s v"
  by (cases v) (simp_all add: to_device_def)

lemma place_registry: "place env (s\<lparr> tensor_registry := reg \<rparr>) k v = place env s k v"
  by (simp add: place_def to_device_registry cong: option.case_cong if_cong)

lemma place_items_registry:
  "place_items env (s\<lparr> tensor_registry := reg \<rparr>) xs = place_items env s xs"
  by (induction xs) (auto simp: place_registry cong: sum.case_cong)

lemma place_items_keys: "place_items env s xs = Inr ys \<Longrightarrow> map fst ys = map fst xs"
  by (induction xs arbitrary: ys) (auto split: sum.splits)

lemma reset_registry_Inr:
  "reset_registry env s = Inr s1 \<Longrightarrow>
     place_items env s (tensor_registry_permanent s) = Inr (tensor_registry s1) \<and>
     s1 = s\<lparr> tensor_registry := tensor_registry s1 \<rparr>"
  by (auto simp: reset_registry_def split: sum.splits)

lemma reset_registry_again:
  assumes "reset_registry env s = Inr s1"
  shows "reset_registry env (s1\<lparr> tensor_registry := reg \<rparr>) = Inr s1"
proof -
  from reset_registry_Inr[OF assms] have
    p: "place_items env s (tensor_registry_permanent s) = Inr (tensor_registry s1)" and
    e: "s1 = s\<lparr> tensor_registry := tensor_registry s1 \<rparr>"
    by simp_all
  have perm: "tensor_registry_permanent s1 = tensor_registry_permanent s"
    by (subst e) simp
  have "place_items env (s1\<lparr> tensor_registry := reg \<rparr>) (tensor_registry_permanent s1) =
        place_items env s (tensor_registry_permanent s)"
    unfolding perm place_items_registry by (subst e) (simp add: place_items_registry)
  then show ?thesis by (simp add: reset_registry_def p)
qed

lemma reset_times_Suc:
  assumes "reset_registry env s = Inr s1"
  shows "reset_times env (Suc n) s = Inr s1"
proof (induction n)
  case 0
  then show ?case using assms by (simp add: reset_times_def)
next
  case (Suc n)
  have "reset_registry env s1 = Inr s1"
    using reset_registry_again[OF assms, of "tensor_registry s1"] by simp
  then show ?case using Suc by (simp add: reset_times_def)
qed

text \<open>
  C9. \<^verbatim>\<open>reset_registry\<close> leaves the permanent registry as it is and gives the working
  registry the ids of the permanent one; whatever has been written to the working
  registry since, one more reset gives the same manager again, and so do \<open>n + 1\<close>
  resets in a row.
\<close>

theorem reset_registry_idempotent:
  assumes "reset_registry env s = Inr s1"
  shows "tensor_registry_permanent s1 = tensor_registry_permanent s \<and>
         map fst (tensor_registry s1) = map fst (tensor_registry_permanent s) \<and>
         reset_registry env (s1\<lparr> tensor_registry := reg \<rparr>) = Inr s1 \<and>
         reset_times env (Suc n) s = Inr s1"
proof -
  from reset_registry_Inr[OF assms] have
    p: "place_items env s (tensor_registry_permanent s) = Inr (tensor_registry s1)" and
    e: "s1 = s\<lparr> tensor_registry := tensor_registry s1 \<rparr>"
    by simp_all
  have 1: "tensor_registry_permanent s1 = tensor_registry_permanent s"
    by (subst e) simp
  have 2: "map fst (tensor_registry s1) = map fst (tensor_registry_permanent s)"
    using p by (rule place_items_keys)
  show ?thesis
    using 1 2 reset_registry_again[OF assms] reset_times_Suc[OF assms] by simp
qed

theorem reset_registry_idempotent_witness:
  "\<exists>s1. reset_registry ex_env ex_seeded = Inr s1 \<and>
        tensor_registry s1 = [(1, PTensor 0), (2, PNone)] \<and>
        tensor_registry_permanent s1 = tensor_registry_permanent ex_seeded \<and>
        reset_registry ex_env (s1\<lparr> tensor_registry := [(1, PTensor 7)] \<rparr>) = Inr s1 \<and>
        reset_times ex_env (Suc 2) ex_seeded = Inr s1"
proof -
  obtain s1 where s1: "reset_registry ex_env ex_seeded = Inr s1"
    by (simp add: reset_registry_def place_def to_device_def ex_seeded_def ex_defs)
  have r: "tensor_registry s1 = [(1, PTensor 0), (2, PNone)]"
    using s1 by (auto simp: reset_registry_def place_def to_device_def ex_seeded_def ex_defs)
  show ?thesis
    using reset_registry_idempotent[OF s1, where reg = "[(1, PTensor 7)]" and n = 2] s1 r
    by blast
qed

subsection \<open>The execution scheduler\<close>
















lemma run_iters_snoc:
  "run_iters env (iters @ [i]) s =
     (case run_iters env iters s of
        Inl e \<Rightarrow> Inl e
      | Inr s2 \<Rightarrow> run_nodes env (sorted_nodes s2) i s2)"
  by (induction iters arbitrary: s) (auto split: sum.splits)


lemma preprocess_graph_registry:
  assumes "preprocess_graph env root s = Inr s1"
  shows "place_items env s1 (tensor_registry_permanent s1) = Inr (tensor_registry s1)"
    and "reset_registry env s1 = Inr s1"
proof -
  from assms obtain s3 where r: "reset_registry env s3 = Inr s1"
    by (auto simp: preprocess_graph_def split: sum.splits prod.splits if_splits)
  have again: "reset_registry env (s1\<lparr> tensor_registry := tensor_registry s1 \<rparr>) = Inr s1"
    using r by (rule reset_registry_again)
  then show idem: "reset_registry env s1 = Inr s1" by simp
  show "place_items env s1 (tensor_registry_permanent s1) = Inr (tensor_registry s1)"
    using reset_registry_Inr[OF idem] by simp
qed


text \<open>
  C3, as the code has it. \<^verbatim>\<open>preprocess_graph\<close> ends with the one call of
  \<^verbatim>\<open>reset_registry\<close>, so the execution loop starts from the working registry derived
  from the permanent one; a round of the loop is the sweep over the sorted nodes and
  nothing else, so each later round starts from the manager the round before left.
\<close>

theorem working_registry_reset_once:
  assumes "preprocess_graph env root s = Inr s1"
  shows "reset_registry env s1 = Inr s1 \<and>
         run_iters env (iters @ [i]) s1 =
           (case run_iters env iters s1 of
              Inl e \<Rightarrow> Inl e
            | Inr s2 \<Rightarrow> run_nodes env (sorted_nodes s2) i s2)"
  using preprocess_graph_registry(2)[OF assms] run_iters_snoc by simp

lemmas pipeline_defs =
  preprocess_graph_def benchTime_def detect_tensor_device_def extract_subgraph_def
  select_node_def build_func_def count_dependency_def record_skip_def analyze_tensors_def
  add_unique_tensor_def mint_def key_of_def allocate_tensors_def embedding_bag_offsets_def
  strip_tensor_def nth_opt_def reset_registry_def place_def to_device_def run_op_def
  get_inputs_def get_input_def lookup_input_def workarounds_def invoke_def py_not_def
  py_iter_def item_val_def elem_val_def observe_def replay_id_def Let_def

text \<open>
  A producer and its consumer: the second round of the loop starts from the binding
  the first round made, where a reset would give the empty registry.
\<close>

theorem working_registry_not_rebuilt:
  "registry_at_round ex_env ex_chain ex_manager 1 = Inr [(1, PTensor 7)] \<and>
   rebuilt_at_round ex_env ex_chain ex_manager 1 = Inr []"
  by (simp add: ex_defs ex_chain_def pipeline_defs registry_at_round_def rebuilt_at_round_def)

theorem working_registry_reset_once_witness:
  "\<exists>s1. preprocess_graph ex_env ex_chain ex_manager = Inr s1 \<and>
        reset_registry ex_env s1 = Inr s1 \<and>
        run_iters ex_env ([0] @ [1]) s1 =
          (case run_iters ex_env [0] s1 of
             Inl e \<Rightarrow> Inl e
           | Inr s2 \<Rightarrow> run_nodes ex_env (sorted_nodes s2) 1 s2)"
proof -
  obtain s1 where s1: "preprocess_graph ex_env ex_chain ex_manager = Inr s1"
    by (simp add: ex_defs ex_chain_def pipeline_defs)
  show ?thesis
    using working_registry_reset_once[OF s1, where iters = "[0]" and i = 1] s1 by blast
qed




subsection \<open>The allocator\<close>























end
